theory Spec2Isabelle
  imports Complex_Main "HOL-Library.AList" "HOL-Library.Multiset"
begin

section \<open>Python values, errors and loops\<close>

text \<open>
  The notebook \<^verbatim>\<open>Phishing_Website_Classification.ipynb\<close> is embedded function by
  function. Python integers are \<^typ>\<open>int\<close>. A Python float is the real number it
  denotes, and a comparison of two floats is the comparison of these numbers. Every
  exception of the source is a value \<open>Inl e\<close>.
\<close>

datatype error =
    KeyError             \<comment> \<open>a dict has no such key\<close>
  | NoField              \<comment> \<open>a record (numpy row or dict) has no such field\<close>
  | ValueError           \<comment> \<open>math domain error of \<^verbatim>\<open>log\<close>\<close>
  | TypeError
  | IndexError
  | ZeroDivisionError
  | FileNotFoundError

definition bnd :: "error + 'a \<Rightarrow> ('a \<Rightarrow> error + 'b) \<Rightarrow> error + 'b" where
  "bnd m f = (case m of Inl e \<Rightarrow> Inl e | Inr x \<Rightarrow> f x)"

text \<open>A \<^verbatim>\<open>for\<close> loop whose body may raise: the first exception ends the loop.\<close>

primrec for_loop :: "('a \<Rightarrow> 's \<Rightarrow> error + 's) \<Rightarrow> 'a list \<Rightarrow> 's \<Rightarrow> error + 's" where
  "for_loop body [] s = Inr s"
| "for_loop body (x # xs) s = bnd (body x s) (for_loop body xs)"

text \<open>
  A record of the dataset (a row of the numpy structured array, or a dict such as
  \<^verbatim>\<open>real_example\<close>): the fields in column order. \<^verbatim>\<open>site[name]\<close> reads by name,
  \<^verbatim>\<open>site[i]\<close> by position.
\<close>

type_synonym site = "(string \<times> int) list"

definition getfield :: "site \<Rightarrow> string \<Rightarrow> error + int" where
  "getfield site name = (case map_of site name of None \<Rightarrow> Inl NoField | Some v \<Rightarrow> Inr v)"

definition getcol :: "site \<Rightarrow> nat \<Rightarrow> error + int" where
  "getcol site i = (if i < length site then Inr (snd (site ! i)) else Inl IndexError)"

text \<open>
  The results of the float operations are rounded, and \<^verbatim>\<open>math.log\<close> is the platform's.
  Where floats are added up, compared with each other or sorted, which is in
  \<^verbatim>\<open>prediction\<close> and in \<^verbatim>\<open>calc_feature_impact\<close>, rounding decides the outcome, so there
  the operations are a parameter: the sum and the difference of two floats, the quotient
  of two floats, the quotient of two ints, and the logarithm. They are any five functions
  such that a difference \<open>x - y\<close> is positive exactly when \<open>y < x\<close> (as it is for doubles:
  a difference of two different doubles does not round to zero). What is proved with the
  parameter holds for every such arithmetic, the interpreter's among them; \<open>exact_ops\<close>
  is the one that does not round.
\<close>

typedef float_ops =
  "{ops :: (real \<Rightarrow> real \<Rightarrow> real) \<times> (real \<Rightarrow> real \<Rightarrow> real) \<times> (real \<Rightarrow> real \<Rightarrow> real) \<times>
           (int \<Rightarrow> int \<Rightarrow> real) \<times> (real \<Rightarrow> real).
      \<forall>x y. (0 < fst (snd ops) x y) = (y < x)}"
  by (rule exI [of _ "((+), (-), (/), (\<lambda>a b. real_of_int a / real_of_int b), ln)"]) simp

definition fl_add :: "float_ops \<Rightarrow> real \<Rightarrow> real \<Rightarrow> real" where
  "fl_add ops = fst (Rep_float_ops ops)"

definition fl_sub :: "float_ops \<Rightarrow> real \<Rightarrow> real \<Rightarrow> real" where
  "fl_sub ops = fst (snd (Rep_float_ops ops))"

definition fl_div :: "float_ops \<Rightarrow> real \<Rightarrow> real \<Rightarrow> real" where
  "fl_div ops = fst (snd (snd (Rep_float_ops ops)))"

definition fl_idiv :: "float_ops \<Rightarrow> int \<Rightarrow> int \<Rightarrow> real" where
  "fl_idiv ops = fst (snd (snd (snd (Rep_float_ops ops))))"

definition fl_log :: "float_ops \<Rightarrow> real \<Rightarrow> real" where
  "fl_log ops = snd (snd (snd (snd (Rep_float_ops ops))))"

definition exact_ops :: float_ops where
  "exact_ops = Abs_float_ops ((+), (-), (/), (\<lambda>a b. real_of_int a / real_of_int b), ln)"

text \<open>
  \<^verbatim>\<open>a / b\<close> on two ints and on two floats, with the arithmetic as a parameter. In the
  estimator and in the evaluator a quotient of two ints is what is stored or printed;
  there it is kept as the exact quotient, \<open>py_div\<close>, from which the double differs by
  one rounding.
\<close>

definition py_truediv :: "float_ops \<Rightarrow> int \<Rightarrow> int \<Rightarrow> error + real" where
  "py_truediv ops a b = (if b = 0 then Inl ZeroDivisionError else Inr (fl_idiv ops a b))"

definition py_fdiv :: "float_ops \<Rightarrow> real \<Rightarrow> real \<Rightarrow> error + real" where
  "py_fdiv ops a b = (if b = 0 then Inl ZeroDivisionError else Inr (fl_div ops a b))"

definition py_div :: "int \<Rightarrow> int \<Rightarrow> error + real" where
  "py_div a b = (if b = 0 then Inl ZeroDivisionError else Inr (real_of_int a / real_of_int b))"

text \<open>\<^verbatim>\<open>str\<close> of an int: decimal digits, a leading minus sign for a negative number.\<close>

fun str_nat :: "nat \<Rightarrow> string" where
  "str_nat n =
     (if n < 10 then [''0123456789'' ! n]
      else str_nat (n div 10) @ [''0123456789'' ! (n mod 10)])"

declare str_nat.simps [simp del]

definition str_int :: "int \<Rightarrow> string" where
  "str_int i = (if i < 0 then CHR ''-'' # str_nat (nat (- i)) else str_nat (nat i))"

text \<open>
  The values a model is made of: floats, tuples, lists and dicts with string keys. A dict
  is an association list with distinct keys, \<^verbatim>\<open>d[k] = v\<close> being
  \<^const>\<open>AList.update\<close> (replace in place, or append).
\<close>

datatype pyval =
    PFloat real
  | PTuple "pyval list"
  | PList "pyval list"
  | PDict "(string \<times> pyval) list"

text \<open>\<^verbatim>\<open>obj[key]\<close> with a string key, \<^verbatim>\<open>obj[i]\<close> with the index 0 or 1, \<^verbatim>\<open>log(obj)\<close>.\<close>

fun getitem_key :: "pyval \<Rightarrow> string \<Rightarrow> error + pyval" where
  "getitem_key (PDict d) k = (case map_of d k of None \<Rightarrow> Inl KeyError | Some v \<Rightarrow> Inr v)"
| "getitem_key (PFloat x) k = Inl TypeError"
| "getitem_key (PTuple xs) k = Inl TypeError"
| "getitem_key (PList xs) k = Inl TypeError"

fun getitem_idx :: "pyval \<Rightarrow> nat \<Rightarrow> error + pyval" where
  "getitem_idx (PTuple xs) i = (if i < length xs then Inr (xs ! i) else Inl IndexError)"
| "getitem_idx (PList xs) i = (if i < length xs then Inr (xs ! i) else Inl IndexError)"
| "getitem_idx (PDict d) i = Inl KeyError"
| "getitem_idx (PFloat x) i = Inl TypeError"

fun py_log :: "float_ops \<Rightarrow> pyval \<Rightarrow> error + real" where
  "py_log ops (PFloat x) = (if 0 < x then Inr (fl_log ops x) else Inl ValueError)"
| "py_log ops (PTuple xs) = Inl TypeError"
| "py_log ops (PList xs) = Inl TypeError"
| "py_log ops (PDict d) = Inl TypeError"

section \<open>Feature impact ranker\<close>

text \<open>
  \<^verbatim>\<open>calc_feature_impact(threshold, n_features)\<close> reads the globals \<^verbatim>\<open>data_raw\<close> and
  \<^verbatim>\<open>data_raw.dtype.names\<close>, here the parameters \<open>data_raw\<close> and \<open>names\<close>. The
  inner loop over the sites keeps \<^verbatim>\<open>(feat_tot, phishing_feat, phishing_not_feat)\<close>.
  The diagnostic \<^verbatim>\<open>print\<close>s are left out.
\<close>

definition impact_step :: "int \<Rightarrow> nat \<Rightarrow> site \<Rightarrow> int \<times> int \<times> int \<Rightarrow> error + int \<times> int \<times> int" where
  "impact_step threshold i site c =
     (case c of (feat_tot, phishing_feat, phishing_not_feat) \<Rightarrow>
        bnd (getcol site i) (\<lambda>x.
          if x \<ge> threshold then
            bnd (getfield site ''Result'') (\<lambda>r.
              Inr (feat_tot + 1, (if r = 1 then phishing_feat + 1 else phishing_feat),
                   phishing_not_feat))
          else
            bnd (getfield site ''Result'') (\<lambda>r.
              Inr (feat_tot, phishing_feat,
                   (if r = 1 then phishing_not_feat + 1 else phishing_not_feat)))))"

definition feature_ratio :: "float_ops \<Rightarrow> site list \<Rightarrow> int \<Rightarrow> nat \<Rightarrow> error + real" where
  "feature_ratio ops data_raw threshold i =
     bnd (for_loop (impact_step threshold i) data_raw (0, 0, 0)) (\<lambda>c.
       case c of (feat_tot, phishing_feat, phishing_not_feat) \<Rightarrow>
         bnd (py_truediv ops (phishing_feat + 1) (feat_tot + 2)) (\<lambda>p_y1_given_xi_geq_thresh.
         bnd (py_truediv ops (phishing_not_feat + 1) (int (length data_raw) - feat_tot + 2))
           (\<lambda>p_y1_given_xi_lt_thresh.
         py_fdiv ops p_y1_given_xi_geq_thresh p_y1_given_xi_lt_thresh)))"

text \<open>
  \<^verbatim>\<open>xs[start:]\<close>: a negative start counts from the end, and the start is clamped to
  the list.
\<close>

definition py_slice_from :: "int \<Rightarrow> 'a list \<Rightarrow> 'a list" where
  "py_slice_from start xs =
     (let n = int (length xs);
          s = (if start < 0 then max 0 (start + n) else min start n)
      in drop (nat s) xs)"

definition name_at :: "string list \<Rightarrow> nat \<Rightarrow> error + string" where
  "name_at names i = (if i < length names then Inr (names ! i) else Inl IndexError)"

text \<open>
  \<^verbatim>\<open>ratios\<close> is filled in the order of the columns \<^verbatim>\<open>range(1, len(data_raw[0]) - 1)\<close>,
  so \<^verbatim>\<open>ratios.items()\<close> is the list of \<open>(i, ratio)\<close> in that order; \<^verbatim>\<open>sorted\<close> is a
  stable sort, as \<^const>\<open>sort_key\<close> (insertion sort) is.
\<close>

definition calc_feature_impact ::
    "float_ops \<Rightarrow> string list \<Rightarrow> site list \<Rightarrow> int \<Rightarrow> int \<Rightarrow> error + string list" where
  "calc_feature_impact ops names data_raw threshold n_features =
     (case data_raw of
        [] \<Rightarrow> Inl IndexError
      | site0 # _ \<Rightarrow>
          bnd (for_loop (\<lambda>i ratios. bnd (feature_ratio ops data_raw threshold i)
                           (\<lambda>r. Inr (ratios @ [(i, r)])))
                 [1 ..< length site0 - 1] [])
            (\<lambda>ratios.
               let sorted_ratios = sort_key snd ratios;
                   result = py_slice_from (int (length sorted_ratios) - n_features) sorted_ratios
               in for_loop (\<lambda>i out. bnd (name_at names (fst i)) (\<lambda>nm. Inr (out @ [nm])))
                    result []))"

section \<open>Conditional probability estimator\<close>

definition cond_prob_step :: "string \<Rightarrow> int \<Rightarrow> int \<Rightarrow> site \<Rightarrow> int \<times> int \<Rightarrow> error + int \<times> int" where
  "cond_prob_step feat feat_val y site c =
     (case c of (y_tot, feat_given_y) \<Rightarrow>
        bnd (getfield site ''Result'') (\<lambda>r.
          if r = y then
            bnd (getfield site feat) (\<lambda>x.
              Inr (y_tot + 1, (if x = feat_val then feat_given_y + 1 else feat_given_y)))
          else Inr (y_tot, feat_given_y)))"

definition cond_prob :: "string \<Rightarrow> int \<Rightarrow> int \<Rightarrow> site list \<Rightarrow> error + real" where
  "cond_prob feat feat_val y data =
     bnd (for_loop (cond_prob_step feat feat_val y) data (0, 0)) (\<lambda>c.
       case c of (y_tot, feat_given_y) \<Rightarrow> py_div (feat_given_y + 1) (y_tot + 2))"

text \<open>
  \<^verbatim>\<open>calc_support\<close> works on set objects, which are mutable and are shared by reference,
  so they live in a heap: an address holds a set, kept as the list of its elements in the
  order they were first added (a Python set has no order of its own; the tables built
  from it are read by key only). \<^verbatim>\<open>set()\<close> allocates one object;
  \<^verbatim>\<open>dict.fromkeys(X, v)\<close> binds every key of \<open>X\<close> to the one value \<open>v\<close> it is given.
\<close>

type_synonym addr = nat
type_synonym pyset = "int list"

record heap =
  cells :: "addr \<Rightarrow> pyset"
  brk :: addr

definition empty_heap :: heap where
  "empty_heap = \<lparr>cells = (\<lambda>_. []), brk = 0\<rparr>"

definition new_set :: "heap \<Rightarrow> addr \<times> heap" where
  "new_set h = (brk h, h\<lparr>cells := (cells h)(brk h := []), brk := Suc (brk h)\<rparr>)"

definition set_add :: "int \<Rightarrow> pyset \<Rightarrow> pyset" where
  "set_add v s = (if v \<in> set s then s else s @ [v])"

definition add_at :: "addr \<Rightarrow> int \<Rightarrow> heap \<Rightarrow> heap" where
  "add_at a v h = h\<lparr>cells := (cells h)(a := set_add v (cells h a))\<rparr>"

definition dict_fromkeys :: "string list \<Rightarrow> 'v \<Rightarrow> (string \<times> 'v) list" where
  "dict_fromkeys X v = fold (\<lambda>k d. AList.update k v d) X []"

definition support_step ::
    "(string \<times> addr) list \<Rightarrow> site \<Rightarrow> string \<Rightarrow> heap \<Rightarrow> error + heap" where
  "support_step support site X_i h =
     (case map_of support X_i of
        None \<Rightarrow> Inl KeyError
      | Some a \<Rightarrow> bnd (getfield site X_i) (\<lambda>v. Inr (add_at a v h)))"

definition calc_support ::
    "string list \<Rightarrow> site list \<Rightarrow> error + (string \<times> addr) list \<times> heap" where
  "calc_support X data =
     (case new_set empty_heap of (a, h0) \<Rightarrow>
        let support = dict_fromkeys X a in
        bnd (for_loop (\<lambda>site. for_loop (support_step support site) X) data h0)
          (\<lambda>h. Inr (support, h)))"

definition table_step :: "string \<Rightarrow> site list \<Rightarrow> int \<Rightarrow> (string \<times> pyval) list
    \<Rightarrow> error + (string \<times> pyval) list" where
  "table_step X_i data val d =
     bnd (cond_prob X_i val (- 1) data) (\<lambda>p0.
     bnd (cond_prob X_i val 1 data) (\<lambda>p1.
       Inr (AList.update (str_int val) (PTuple [PFloat p0, PFloat p1]) d)))"

definition probs_step :: "(string \<times> addr) list \<Rightarrow> heap \<Rightarrow> site list \<Rightarrow> string
    \<Rightarrow> (string \<times> pyval) list \<Rightarrow> error + (string \<times> pyval) list" where
  "probs_step support h data X_i probs_given_y =
     (case map_of support X_i of
        None \<Rightarrow> Inl KeyError
      | Some a \<Rightarrow>
          bnd (for_loop (table_step X_i data) (cells h a) []) (\<lambda>d.
            Inr (AList.update X_i (PDict d) probs_given_y)))"

definition calc_probs_given_y :: "string list \<Rightarrow> site list \<Rightarrow> error + pyval" where
  "calc_probs_given_y X data =
     bnd (calc_support X data) (\<lambda>sh.
       case sh of (support, h) \<Rightarrow>
         bnd (for_loop (probs_step support h data) X []) (\<lambda>probs_given_y.
           Inr (PDict probs_given_y)))"

definition p_y_step :: "site \<Rightarrow> int \<Rightarrow> error + int" where
  "p_y_step i tot_phish =
     bnd (getfield i ''Result'') (\<lambda>r. Inr (if r = 1 then tot_phish + 1 else tot_phish))"

definition calc_p_y :: "site list \<Rightarrow> error + real" where
  "calc_p_y data =
     bnd (for_loop p_y_step data 0) (\<lambda>tot_phish. py_div tot_phish (int (length data)))"

definition train :: "string list \<Rightarrow> site list \<Rightarrow> error + pyval \<times> real" where
  "train X data =
     bnd (calc_probs_given_y X data) (\<lambda>probs_given_y.
     bnd (calc_p_y data) (\<lambda>p_y.
       Inr (probs_given_y, p_y)))"

section \<open>Predictor\<close>

text \<open>
  \<^verbatim>\<open>probs_given_y[X_i][str(site[X_i])][c]\<close>: the subscripts are evaluated left to
  right, the index expression \<^verbatim>\<open>str(site[X_i])\<close> after the object it indexes.
\<close>

definition table_entry :: "pyval \<Rightarrow> site \<Rightarrow> string \<Rightarrow> nat \<Rightarrow> error + pyval" where
  "table_entry probs_given_y site X_i c =
     bnd (getitem_key probs_given_y X_i) (\<lambda>t.
     bnd (getfield site X_i) (\<lambda>v.
     bnd (getitem_key t (str_int v)) (\<lambda>pair.
       getitem_idx pair c)))"

text \<open>
  One turn of the loop: \<^verbatim>\<open>X_y_neg1 += log(...)\<close>, then \<^verbatim>\<open>X_y_1 += log(...)\<close>. A float
  addition raises nothing, so the second lookup and logarithm may stand before the first
  addition.
\<close>

definition prediction_step ::
    "float_ops \<Rightarrow> site \<Rightarrow> pyval \<Rightarrow> string \<Rightarrow> real \<times> real \<Rightarrow> error + real \<times> real" where
  "prediction_step ops site probs_given_y X_i sc =
     (case sc of (X_y_neg1, X_y_1) \<Rightarrow>
        bnd (table_entry probs_given_y site X_i 0) (\<lambda>e0.
        bnd (py_log ops e0) (\<lambda>l0.
        bnd (table_entry probs_given_y site X_i 1) (\<lambda>e1.
        bnd (py_log ops e1) (\<lambda>l1.
          Inr (fl_add ops X_y_neg1 l0, fl_add ops X_y_1 l1))))))"

definition prediction :: "float_ops \<Rightarrow> site \<Rightarrow> string list \<Rightarrow> pyval \<Rightarrow> real \<Rightarrow> error + bool" where
  "prediction ops site X probs_given_y p_y =
     bnd (py_log ops (PFloat (fl_sub ops 1 p_y))) (\<lambda>X_y_neg1.
     bnd (py_log ops (PFloat p_y)) (\<lambda>X_y_1.
     bnd (for_loop (prediction_step ops site probs_given_y) X (X_y_neg1, X_y_1)) (\<lambda>sc.
       case sc of (X_y_neg1, X_y_1) \<Rightarrow> Inr (X_y_1 > X_y_neg1))))"

section \<open>Evaluator\<close>

text \<open>
  \<^verbatim>\<open>test\<close> prints three lines; what it has printed when it stops is part of its
  result. The four counters are a record. Inside the loop \<^verbatim>\<open>site["Result"]\<close> is read
  up to three times; the record does not change between the reads, so one read stands
  for them, after the call of \<^verbatim>\<open>prediction\<close> as in the source.
\<close>

datatype report = Accuracy real | Precision real | Recall real

record tally =
  correctly_phish :: int
  correctly_not_phish :: int
  predicted_phish :: int
  actual_phish :: int

definition tally0 :: tally where
  "tally0 = \<lparr>correctly_phish = 0, correctly_not_phish = 0, predicted_phish = 0, actual_phish = 0\<rparr>"

definition test_step ::
    "float_ops \<Rightarrow> string list \<Rightarrow> pyval \<Rightarrow> real \<Rightarrow> site \<Rightarrow> tally \<Rightarrow> error + tally" where
  "test_step ops X probs_given_y p_y site t =
     bnd (prediction ops site X probs_given_y p_y) (\<lambda>phishPredicted.
     bnd (getfield site ''Result'') (\<lambda>r.
       Inr \<lparr>correctly_phish =
              (if phishPredicted \<and> r = 1 then correctly_phish t + 1 else correctly_phish t),
            correctly_not_phish =
              (if \<not> phishPredicted \<and> r = - 1 then correctly_not_phish t + 1
               else correctly_not_phish t),
            predicted_phish = (if phishPredicted then predicted_phish t + 1 else predicted_phish t),
            actual_phish = (if r = 1 then actual_phish t + 1 else actual_phish t)\<rparr>))"

definition test ::
    "float_ops \<Rightarrow> string list \<Rightarrow> site list \<Rightarrow> site list \<Rightarrow> report list \<times> (error + unit)" where
  "test ops X train_data test_data =
     (case train X train_data of
        Inl e \<Rightarrow> ([], Inl e)
      | Inr (probs_given_y, p_y) \<Rightarrow>
     (case for_loop (test_step ops X probs_given_y p_y) test_data tally0 of
        Inl e \<Rightarrow> ([], Inl e)
      | Inr t \<Rightarrow>
     (case py_div (correctly_phish t + correctly_not_phish t) (int (length test_data)) of
        Inl e \<Rightarrow> ([], Inl e)
      | Inr acc \<Rightarrow>
     (case py_div (correctly_phish t) (predicted_phish t) of
        Inl e \<Rightarrow> ([Accuracy acc], Inl e)
      | Inr prec \<Rightarrow>
     (case py_div (correctly_phish t) (actual_phish t) of
        Inl e \<Rightarrow> ([Accuracy acc, Precision prec], Inl e)
      | Inr rcl \<Rightarrow> ([Accuracy acc, Precision prec, Recall rcl], Inr ()))))))"

section \<open>Model persistence\<close>

text \<open>
  \<^verbatim>\<open>save_model\<close> receives a reference to the dict that \<^verbatim>\<open>train\<close> built, so the
  objects of the caller live in a store, and the files of the working directory beside
  them. A file holds a JSON document; \<^verbatim>\<open>json.dump\<close> writes a dict as an object, a
  tuple or a list as an array and a float as a number, and \<^verbatim>\<open>json.load\<close> reads an
  object as a dict, an array as a list and a number as a float. The text of the document
  and the decimal text of a float are the library's and are not modelled: a number is
  read back as the float that was written. An object read here has distinct names, as
  every object written from a dict has.
\<close>

datatype json = JNum real | JArr "json list" | JObj "(string \<times> json) list"

primrec json_dump :: "pyval \<Rightarrow> json" where
  "json_dump (PFloat x) = JNum x"
| "json_dump (PTuple xs) = JArr (map json_dump xs)"
| "json_dump (PList xs) = JArr (map json_dump xs)"
| "json_dump (PDict d) = JObj (map (map_prod id json_dump) d)"

primrec json_load :: "json \<Rightarrow> pyval" where
  "json_load (JNum x) = PFloat x"
| "json_load (JArr xs) = PList (map json_load xs)"
| "json_load (JObj d) = PDict (map (map_prod id json_load) d)"

record world =
  objs :: "addr \<Rightarrow> pyval"
  files :: "string \<rightharpoonup> json"

text \<open>\<^verbatim>\<open>obj[k] = v\<close> on the object itself.\<close>

definition setitem :: "pyval \<Rightarrow> string \<Rightarrow> pyval \<Rightarrow> error + pyval" where
  "setitem obj k v =
     (case obj of PDict d \<Rightarrow> Inr (PDict (AList.update k v d)) | _ \<Rightarrow> Inl TypeError)"

definition save_model :: "addr \<Rightarrow> real \<Rightarrow> world \<Rightarrow> error + world" where
  "save_model probs_given_y p_y w =
     (let model = probs_given_y in
      bnd (setitem (objs w model) ''p_y'' (PFloat p_y)) (\<lambda>obj.
        let w1 = w\<lparr>objs := (objs w)(model := obj)\<rparr> in
        Inr (w1\<lparr>files := (files w1)(''model.txt'' \<mapsto> json_dump (objs w1 model))\<rparr>)))"

definition load_model :: "world \<Rightarrow> error + pyval" where
  "load_model w =
     (case files w ''model.txt'' of
        None \<Rightarrow> Inl FileNotFoundError
      | Some j \<Rightarrow> Inr (json_load j))"

text \<open>
  A call of \<^verbatim>\<open>prediction\<close> on the table the caller holds: the argument is a reference
  into the store. The body reads the table by subscripts and binds its two local names;
  it has no assignment to a subscript or an attribute and calls no method of the table,
  so the store it leaves, also when it raises, is the store it was given.
\<close>

definition prediction_call ::
    "float_ops \<Rightarrow> site \<Rightarrow> string list \<Rightarrow> addr \<Rightarrow> real \<Rightarrow> world \<Rightarrow> (error + bool) \<times> world" where
  "prediction_call ops site X probs_given_y p_y w =
     (prediction ops site X (objs w probs_given_y) p_y, w)"

section \<open>The quantities the specification names\<close>

text \<open>
  \<open>count(Y = y)\<close> and \<open>count(X_i = v AND Y = y)\<close> over a dataset, the smoothed
  conditional probability \<open>(count(X_i = v AND Y = y) + 1) / (count(Y = y) + 2)\<close>, and the
  pair stored for a value.
\<close>

definition count_y :: "site list \<Rightarrow> int \<Rightarrow> nat" where
  "count_y data y = length (filter (\<lambda>site. map_of site ''Result'' = Some y) data)"

definition count_xy :: "site list \<Rightarrow> string \<Rightarrow> int \<Rightarrow> int \<Rightarrow> nat" where
  "count_xy data feat v y =
     length (filter (\<lambda>site. map_of site ''Result'' = Some y \<and> map_of site feat = Some v) data)"

definition smoothed :: "site list \<Rightarrow> string \<Rightarrow> int \<Rightarrow> int \<Rightarrow> real" where
  "smoothed data feat v y =
     (real (count_xy data feat v y) + 1) / (real (count_y data y) + 2)"

definition spec_entry :: "site list \<Rightarrow> string \<Rightarrow> int \<Rightarrow> pyval" where
  "spec_entry data feat v =
     PTuple [PFloat (smoothed data feat v (- 1)), PFloat (smoothed data feat v 1)]"

text \<open>The values observed in a dataset for any feature of a list.\<close>

definition observed :: "site list \<Rightarrow> string list \<Rightarrow> int set" where
  "observed data X = {v. \<exists>site\<in>set data. \<exists>x\<in>set X. map_of site x = Some v}"

definition value_table :: "site list \<Rightarrow> int list \<Rightarrow> string \<Rightarrow> (string \<times> pyval) list" where
  "value_table data S f = fold (\<lambda>v. AList.update (str_int v) (spec_entry data f v)) S []"

text \<open>Every record has the label and the selected features.\<close>

definition well_formed :: "string list \<Rightarrow> site list \<Rightarrow> bool" where
  "well_formed X data \<longleftrightarrow>
     list_all (\<lambda>site. map_of site ''Result'' \<noteq> None \<and> list_all (\<lambda>x. map_of site x \<noteq> None) X) data"

text \<open>
  What \<^const>\<open>calc_support\<close> returns, read through the heap: each key with the elements
  of the set object it refers to.
\<close>

definition support_sets :: "string list \<Rightarrow> site list \<Rightarrow> error + (string \<times> pyset) list" where
  "support_sets X data =
     bnd (calc_support X data) (\<lambda>sh. case sh of (support, h) \<Rightarrow>
       Inr (map (\<lambda>ka. (fst ka, cells h (snd ka))) support))"

text \<open>
  The table entry the predictor reads for a feature, as a number: component \<open>c\<close> of the
  pair stored under the record's stringified value, and 0 where there is no such float.
  A record can be scored when every listed feature has two positive entries. The score of
  a label starts at the log of its prior, and the logs of its entries are added to it one
  by one in the order of the feature list.
\<close>

definition prob :: "pyval \<Rightarrow> site \<Rightarrow> string \<Rightarrow> nat \<Rightarrow> real" where
  "prob probs_given_y site f c =
     (case table_entry probs_given_y site f c of Inr (PFloat x) \<Rightarrow> x | _ \<Rightarrow> 0)"

definition scorable :: "pyval \<Rightarrow> site \<Rightarrow> string list \<Rightarrow> bool" where
  "scorable probs_given_y site X \<longleftrightarrow>
     list_all (\<lambda>f. 0 < prob probs_given_y site f 0 \<and> 0 < prob probs_given_y site f 1) X"

definition score :: "float_ops \<Rightarrow> real \<Rightarrow> pyval \<Rightarrow> site \<Rightarrow> string list \<Rightarrow> nat \<Rightarrow> real" where
  "score ops start probs_given_y site X c =
     foldl (fl_add ops) start (map (\<lambda>f. fl_log ops (prob probs_given_y site f c)) X)"

text \<open>
  The invariant of the conditional probability table: a dict of per-feature dicts whose
  values are pairs of floats strictly between 0 and 1.
\<close>

fun valid_pair :: "pyval \<Rightarrow> bool" where
  "valid_pair (PTuple [PFloat a, PFloat b]) = (0 < a \<and> a < 1 \<and> 0 < b \<and> b < 1)"
| "valid_pair _ = False"

fun valid_table :: "pyval \<Rightarrow> bool" where
  "valid_table (PDict t) = list_all (\<lambda>kv. valid_pair (snd kv)) t"
| "valid_table _ = False"

fun valid_probs :: "pyval \<Rightarrow> bool" where
  "valid_probs (PDict d) = list_all (\<lambda>kv. valid_table (snd kv)) d"
| "valid_probs _ = False"

text \<open>
  \<^const>\<open>json_load\<close> after \<^const>\<open>json_dump\<close> turns every tuple into a list and changes
  nothing else of the structure, which is \<open>as_lists\<close>.
\<close>

primrec as_lists :: "pyval \<Rightarrow> pyval" where
  "as_lists (PFloat x) = PFloat x"
| "as_lists (PTuple xs) = PList (map as_lists xs)"
| "as_lists (PList xs) = PList (map as_lists xs)"
| "as_lists (PDict d) = PDict (map (map_prod id as_lists) d)"

text \<open>
  The evaluator's counts over a test partition: the records predicted phishing, those
  predicted phishing that are phishing, those predicted legitimate that are legitimate
  (the actual phishing records are \<open>count_y data 1\<close>); and the partitions on which every
  prediction returns a verdict and every record has its label.
\<close>

definition predicted_count ::
    "float_ops \<Rightarrow> string list \<Rightarrow> pyval \<Rightarrow> real \<Rightarrow> site list \<Rightarrow> nat" where
  "predicted_count ops X probs p_y data =
     length (filter (\<lambda>site. prediction ops site X probs p_y = Inr True) data)"

definition correct_phish_count ::
    "float_ops \<Rightarrow> string list \<Rightarrow> pyval \<Rightarrow> real \<Rightarrow> site list \<Rightarrow> nat" where
  "correct_phish_count ops X probs p_y data =
     length (filter (\<lambda>site. prediction ops site X probs p_y = Inr True \<and>
                              map_of site ''Result'' = Some 1) data)"

definition correct_legit_count ::
    "float_ops \<Rightarrow> string list \<Rightarrow> pyval \<Rightarrow> real \<Rightarrow> site list \<Rightarrow> nat" where
  "correct_legit_count ops X probs p_y data =
     length (filter (\<lambda>site. prediction ops site X probs p_y = Inr False \<and>
                              map_of site ''Result'' = Some (- 1)) data)"

definition scored :: "float_ops \<Rightarrow> string list \<Rightarrow> pyval \<Rightarrow> real \<Rightarrow> site list \<Rightarrow> bool" where
  "scored ops X probs p_y data \<longleftrightarrow>
     list_all (\<lambda>site. \<not> isl (prediction ops site X probs p_y) \<and> map_of site ''Result'' \<noteq> None)
       data"

text \<open>
  The ranker's quantities for the column \<open>i\<close>: the sizes of the groups
  \<open>feature \<ge> threshold\<close> and \<open>feature < threshold\<close>, the phishing records in each, and
  the ratio of the two smoothed probabilities \<open>(count + 1) / (group size + 2)\<close>, each
  quotient as the arithmetic gives it. The candidate columns are all but the first (the
  identifier) and the last (the label); the ranking is the candidates sorted by ratio. A dataset is rectangular when every row has
  one value per column name and has the label.
\<close>

definition count_geq :: "site list \<Rightarrow> int \<Rightarrow> nat \<Rightarrow> nat" where
  "count_geq data th i = length (filter (\<lambda>site. th \<le> snd (site ! i)) data)"

definition count_lt :: "site list \<Rightarrow> int \<Rightarrow> nat \<Rightarrow> nat" where
  "count_lt data th i = length (filter (\<lambda>site. snd (site ! i) < th) data)"

definition phish_geq :: "site list \<Rightarrow> int \<Rightarrow> nat \<Rightarrow> nat" where
  "phish_geq data th i =
     length (filter (\<lambda>site. th \<le> snd (site ! i) \<and> map_of site ''Result'' = Some 1) data)"

definition phish_lt :: "site list \<Rightarrow> int \<Rightarrow> nat \<Rightarrow> nat" where
  "phish_lt data th i =
     length (filter (\<lambda>site. snd (site ! i) < th \<and> map_of site ''Result'' = Some 1) data)"

definition impact :: "float_ops \<Rightarrow> site list \<Rightarrow> int \<Rightarrow> nat \<Rightarrow> real" where
  "impact ops data th i =
     fl_div ops
       (fl_idiv ops (int (phish_geq data th i) + 1) (int (count_geq data th i) + 2))
       (fl_idiv ops (int (phish_lt data th i) + 1) (int (count_lt data th i) + 2))"

definition candidates :: "float_ops \<Rightarrow> string list \<Rightarrow> site list \<Rightarrow> int \<Rightarrow> (nat \<times> real) list" where
  "candidates ops names data th =
     map (\<lambda>i. (i, impact ops data th i)) [1 ..< length names - 1]"

definition ranking :: "float_ops \<Rightarrow> string list \<Rightarrow> site list \<Rightarrow> int \<Rightarrow> (nat \<times> real) list" where
  "ranking ops names data th = sort_key snd (candidates ops names data th)"

definition rect :: "nat \<Rightarrow> site list \<Rightarrow> bool" where
  "rect n data \<longleftrightarrow> list_all (\<lambda>site. length site = n \<and> map_of site ''Result'' \<noteq> None) data"

text \<open>The number a string of decimal digits denotes (used to show \<^const>\<open>str_int\<close> injective).\<close>

definition digits_val :: "string \<Rightarrow> nat" where
  "digits_val s = foldl (\<lambda>a c. 10 * a + (of_char c - 48)) 0 s"

section \<open>Errors and loops: basic facts\<close>

lemma bnd_Inr_iff: "bnd m f = Inr y \<longleftrightarrow> (\<exists>x. m = Inr x \<and> f x = Inr y)"
  by (cases m) (simp_all add: bnd_def)

lemma bnd_Inr [simp]: "bnd (Inr x) f = f x"
  by (simp add: bnd_def)

lemma bnd_Inl [simp]: "bnd (Inl e) f = Inl e"
  by (simp add: bnd_def)

lemma getfield_Inr_iff: "getfield site k = Inr v \<longleftrightarrow> map_of site k = Some v"
  by (simp add: getfield_def split: option.splits)

lemma fl_sub_pos: "0 < fl_sub ops x y \<longleftrightarrow> y < x"
  using Rep_float_ops [of ops] by (simp add: fl_sub_def)

lemma exact_ops_rep:
  "Rep_float_ops exact_ops = ((+), (-), (/), (\<lambda>a b. real_of_int a / real_of_int b), ln)"
  unfolding exact_ops_def by (rule Abs_float_ops_inverse) simp

lemma fl_add_exact [simp]: "fl_add exact_ops x y = x + y"
  by (simp add: fl_add_def exact_ops_rep)

lemma fl_sub_exact [simp]: "fl_sub exact_ops x y = x - y"
  by (simp add: fl_sub_def exact_ops_rep)

lemma fl_div_exact [simp]: "fl_div exact_ops x y = x / y"
  by (simp add: fl_div_def exact_ops_rep)

lemma fl_idiv_exact [simp]: "fl_idiv exact_ops a b = real_of_int a / real_of_int b"
  by (simp add: fl_idiv_def exact_ops_rep)

lemma fl_log_exact [simp]: "fl_log exact_ops x = ln x"
  by (simp add: fl_log_def exact_ops_rep)

lemma cond_prob_loop:
  "for_loop (cond_prob_step feat v y) data (a, b) = Inr c \<Longrightarrow>
     c = (a + int (count_y data y), b + int (count_xy data feat v y))"
proof (induction data arbitrary: a b)
  case Nil
  then show ?case by (simp add: count_y_def count_xy_def)
next
  case (Cons site data)
  from Cons.prems obtain c1 where
    s: "cond_prob_step feat v y site (a, b) = Inr c1" and
    r: "for_loop (cond_prob_step feat v y) data c1 = Inr c"
    by (auto simp: bnd_Inr_iff)
  obtain a1 b1 where c1: "c1 = (a1, b1)" by (cases c1)
  from s c1 have
    "a1 = a + (if map_of site ''Result'' = Some y then 1 else 0)"
    "b1 = b + (if map_of site ''Result'' = Some y \<and> map_of site feat = Some v then 1 else 0)"
    by (auto simp: cond_prob_step_def bnd_Inr_iff getfield_Inr_iff split: if_splits)
  with Cons.IH [of a1 b1] r c1 show ?case
    by (simp add: count_y_def count_xy_def)
qed

lemma cond_prob_eq:
  assumes "cond_prob feat v y data = Inr p"
  shows "p = (real (count_xy data feat v y) + 1) / (real (count_y data y) + 2)"
proof -
  from assms obtain c where
    l: "for_loop (cond_prob_step feat v y) data (0, 0) = Inr c" and
    d: "(case c of (y_tot, feat_given_y) \<Rightarrow> py_div (feat_given_y + 1) (y_tot + 2)) = Inr p"
    by (auto simp: cond_prob_def bnd_Inr_iff)
  from cond_prob_loop [OF l] have c: "c = (int (count_y data y), int (count_xy data feat v y))"
    by simp
  from d show ?thesis
    unfolding c by (simp add: py_div_def split: if_splits)
qed

lemma count_xy_le: "count_xy data feat v y \<le> count_y data y"
  unfolding count_xy_def count_y_def
  by (induction data) auto

lemma cond_prob_bounds:
  assumes "cond_prob feat v y data = Inr p"
  shows "0 < p \<and> p < 1"
proof -
  have "real (count_xy data feat v y) \<le> real (count_y data y)"
    using count_xy_le [of data feat v y] by simp
  then show ?thesis
    unfolding cond_prob_eq [OF assms] by simp
qed


lemma for_loop_fold:
  assumes "for_loop body xs s = Inr s'"
    and "\<And>x t t'. x \<in> set xs \<Longrightarrow> body x t = Inr t' \<Longrightarrow> t' = g x t"
  shows "s' = fold g xs s"
  using assms
proof (induction xs arbitrary: s)
  case Nil
  then show ?case by simp
next
  case (Cons x xs)
  from Cons.prems(1) obtain t where b: "body x s = Inr t" and r: "for_loop body xs t = Inr s'"
    by (auto simp: bnd_Inr_iff)
  have "t = g x s" using Cons.prems(2) [of x s t] b by simp
  moreover have "s' = fold g xs t"
    using Cons.IH [OF r] Cons.prems(2) by simp
  ultimately show ?case by simp
qed

lemma for_loop_total:
  assumes "\<And>x t. x \<in> set xs \<Longrightarrow> \<exists>t'. body x t = Inr t'"
  shows "\<exists>s'. for_loop body xs s = Inr s'"
  using assms
proof (induction xs arbitrary: s)
  case Nil
  then show ?case by simp
next
  case (Cons x xs)
  from Cons.prems [of x s] obtain t where b: "body x s = Inr t" by auto
  from Cons.IH [of t] Cons.prems obtain s' where "for_loop body xs t = Inr s'" by auto
  with b show ?case by simp
qed

lemma table_step_eq:
  "table_step f data v d = Inr d' \<Longrightarrow> d' = AList.update (str_int v) (spec_entry data f v) d"
  by (auto simp: table_step_def bnd_Inr_iff spec_entry_def smoothed_def dest!: cond_prob_eq)

lemma table_loop_fold:
  "for_loop (table_step f data) vals d0 = Inr d \<Longrightarrow>
     d = fold (\<lambda>v. AList.update (str_int v) (spec_entry data f v)) vals d0"
  by (erule for_loop_fold) (rule table_step_eq)


lemma map_of_fold_update_Some:
  "map_of (fold (\<lambda>v. AList.update (k v) (g v)) vs d) s = Some e \<Longrightarrow>
     map_of d s = Some e \<or> (\<exists>v\<in>set vs. k v = s \<and> g v = e)"
proof (induction vs arbitrary: d)
  case Nil
  then show ?case by simp
next
  case (Cons v vs)
  from Cons.IH [of "AList.update (k v) (g v) d"] Cons.prems
  show ?case by (auto simp: update_conv' split: if_splits)
qed

lemma map_of_fold_update_inj:
  assumes "inj k"
  shows "map_of (fold (\<lambda>v. AList.update (k v) (g v)) vs d) (k v) =
           (if v \<in> set vs then Some (g v) else map_of d (k v))"
proof (induction vs arbitrary: d)
  case Nil
  then show ?case by simp
next
  case (Cons w vs)
  show ?case
    using assms by (auto simp: Cons.IH update_conv' dest: injD)
qed

lemma digit_at: "d < 10 \<Longrightarrow> of_char (''0123456789'' ! d) = (48::nat) + d"
proof -
  assume "d < 10"
  then have "d \<in> {0,1,2,3,4,5,6,7,8,9}" by auto
  then show ?thesis by (auto simp: nth_Cons')
qed

lemma digits_val_str_nat: "digits_val (str_nat n) = n"
proof (induction n rule: str_nat.induct)
  case (1 n)
  show ?case
  proof (cases "n < 10")
    case True
    then show ?thesis
      by (subst str_nat.simps) (simp add: digits_val_def digit_at)
  next
    case False
    have m: "n mod 10 < 10" by simp
    from False 1 have ih: "digits_val (str_nat (n div 10)) = n div 10" by simp
    show ?thesis
      using False ih
      by (subst str_nat.simps) (simp add: digits_val_def digit_at [OF m])
  qed
qed

lemma str_nat_not_minus: "CHR ''-'' \<notin> set (str_nat n)"
proof (induction n rule: str_nat.induct)
  case (1 n)
  have d: "\<And>d. d < 10 \<Longrightarrow> CHR ''-'' \<noteq> ''0123456789'' ! d"
  proof -
    fix d :: nat assume "d < 10"
    then have "d \<in> {0,1,2,3,4,5,6,7,8,9}" by auto
    then show "CHR ''-'' \<noteq> ''0123456789'' ! d" by (auto simp: nth_Cons')
  qed
  have m: "n mod 10 < 10" by simp
  show ?case
  proof (cases "n < 10")
    case True
    then show ?thesis
      by (subst str_nat.simps) (simp add: d)
  next
    case False
    with 1 have "CHR ''-'' \<notin> set (str_nat (n div 10))" by simp
    with False show ?thesis
      by (subst str_nat.simps) (simp add: d [OF m])
  qed
qed

lemma str_nat_inj: "str_nat m = str_nat n \<Longrightarrow> m = n"
  by (metis digits_val_str_nat)

lemma str_int_inj: "inj str_int"
proof (rule injI)
  fix i j :: int
  assume e: "str_int i = str_int j"
  have neg: "\<And>a b. CHR ''-'' # str_nat a \<noteq> str_nat b"
    using str_nat_not_minus by (metis list.set_intros(1))
  show "i = j"
  proof (cases "i < 0"; cases "j < 0")
    assume "i < 0" "j < 0"
    with e have "nat (- i) = nat (- j)" by (auto simp: str_int_def dest: str_nat_inj)
    with \<open>i < 0\<close> \<open>j < 0\<close> show ?thesis by simp
  next
    assume "i < 0" "\<not> j < 0"
    with e neg show ?thesis by (simp add: str_int_def)
  next
    assume "\<not> i < 0" "j < 0"
    with e neg [of "nat (- j)" "nat i"] show ?thesis by (simp add: str_int_def)
  next
    assume "\<not> i < 0" "\<not> j < 0"
    with e have "nat i = nat j" by (auto simp: str_int_def dest: str_nat_inj)
    with \<open>\<not> i < 0\<close> \<open>\<not> j < 0\<close> show ?thesis by simp
  qed
qed

lemma str_int_0 [simp]: "str_int 0 = ''0''"
  by (simp add: str_int_def str_nat.simps)
lemma str_int_1 [simp]: "str_int 1 = ''1''"
  by (simp add: str_int_def str_nat.simps)
lemma str_int_m1 [simp]: "str_int (- 1) = ''-1''"
  by (simp add: str_int_def str_nat.simps)


lemma map_of_fold_update_const:
  "map_of (fold (\<lambda>k d. AList.update k (g k) d) X d0) x =
     (if x \<in> set X then Some (g x) else map_of d0 x)"
  by (induction X arbitrary: d0) (auto simp: update_conv')

lemma map_of_dict_fromkeys:
  "map_of (dict_fromkeys X a) x = (if x \<in> set X then Some a else None)"
  unfolding dict_fromkeys_def by (simp add: map_of_fold_update_const)

lemma support_inner:
  assumes "for_loop (support_step support site) Xs h = Inr h'"
    and "\<And>x. x \<in> set Xs \<Longrightarrow> map_of support x = Some a"
  shows "set (cells h' a) = set (cells h a) \<union> {v. \<exists>x\<in>set Xs. map_of site x = Some v}"
  using assms
proof (induction Xs arbitrary: h)
  case Nil
  then show ?case by simp
next
  case (Cons x Xs)
  from Cons.prems(1) obtain h1 where
    b: "support_step support site x h = Inr h1" and
    r: "for_loop (support_step support site) Xs h1 = Inr h'"
    by (auto simp: bnd_Inr_iff)
  from Cons.prems(2) [of x] have sx: "map_of support x = Some a" by simp
  from b sx obtain v where v: "map_of site x = Some v" and h1: "h1 = add_at a v h"
    by (auto simp: support_step_def bnd_Inr_iff getfield_Inr_iff)
  have 1: "set (cells h1 a) = insert v (set (cells h a))"
    unfolding h1 by (auto simp: add_at_def set_add_def)
  have 2: "set (cells h' a) = set (cells h1 a) \<union> {v. \<exists>x\<in>set Xs. map_of site x = Some v}"
    using Cons.IH [OF r] Cons.prems(2) by simp
  show ?case
    unfolding 2 1 using v by auto
qed

lemma support_outer:
  assumes "for_loop (\<lambda>site. for_loop (support_step support site) X) data h = Inr h'"
    and "\<And>x. x \<in> set X \<Longrightarrow> map_of support x = Some a"
  shows "set (cells h' a) = set (cells h a) \<union> observed data X"
  using assms(1)
proof (induction data arbitrary: h)
  case Nil
  then show ?case by (simp add: observed_def)
next
  case (Cons site data)
  from Cons.prems obtain h1 where
    b: "for_loop (support_step support site) X h = Inr h1" and
    r: "for_loop (\<lambda>site. for_loop (support_step support site) X) data h1 = Inr h'"
    by (auto simp: bnd_Inr_iff)
  have 1: "set (cells h1 a) = set (cells h a) \<union> {v. \<exists>x\<in>set X. map_of site x = Some v}"
    using support_inner [OF b] assms(2) by simp
  have 2: "set (cells h' a) = set (cells h1 a) \<union> observed data X"
    using Cons.IH [OF r] .
  show ?case
    unfolding 2 1 by (auto simp: observed_def)
qed

lemma calc_support_shared:
  assumes "calc_support X data = Inr (support, h)"
  shows "map_of support x = (if x \<in> set X then Some 0 else None)"
    and "set (cells h 0) = observed data X"
proof -
  from assms have s: "support = dict_fromkeys X 0"
    and l: "for_loop (\<lambda>site. for_loop (support_step (dict_fromkeys X 0) site) X) data
              (snd (new_set empty_heap)) = Inr h"
    by (auto simp: calc_support_def new_set_def empty_heap_def bnd_Inr_iff Let_def)
  show "map_of support x = (if x \<in> set X then Some 0 else None)"
    unfolding s by (rule map_of_dict_fromkeys)
  have "set (cells h 0) = set (cells (snd (new_set empty_heap)) 0) \<union> observed data X"
    by (rule support_outer [OF l]) (simp add: map_of_dict_fromkeys)
  then show "set (cells h 0) = observed data X"
    by (simp add: new_set_def empty_heap_def)
qed

lemma probs_loop:
  assumes "for_loop (probs_step support h data) Xs p0 = Inr p"
    and "\<And>x. x \<in> set Xs \<Longrightarrow> map_of support x = Some a"
  shows "p = fold (\<lambda>f. AList.update f (PDict (value_table data (cells h a) f))) Xs p0"
proof (rule for_loop_fold [OF assms(1)])
  fix x t t'
  assume x: "x \<in> set Xs" and b: "probs_step support h data x t = Inr t'"
  from assms(2) [OF x] b obtain d where
    d: "for_loop (table_step x data) (cells h a) [] = Inr d" and t': "t' = AList.update x (PDict d) t"
    by (auto simp: probs_step_def bnd_Inr_iff)
  from table_loop_fold [OF d] t'
  show "t' = AList.update x (PDict (value_table data (cells h a) x)) t"
    by (simp add: value_table_def)
qed

lemma calc_probs_closed:
  assumes "calc_probs_given_y X data = Inr m"
  shows "\<exists>S. set S = observed data X \<and>
           m = PDict (fold (\<lambda>f. AList.update f (PDict (value_table data S f))) X [])"
proof -
  from assms obtain support h p where
    cs: "calc_support X data = Inr (support, h)" and
    l: "for_loop (probs_step support h data) X [] = Inr p" and m: "m = PDict p"
    by (auto simp: calc_probs_given_y_def bnd_Inr_iff split: prod.splits)
  have "p = fold (\<lambda>f. AList.update f (PDict (value_table data (cells h 0) f))) X []"
    by (rule probs_loop [OF l]) (simp add: calc_support_shared(1) [OF cs])
  with calc_support_shared(2) [OF cs] m show ?thesis by blast
qed

lemma p_y_loop:
  "for_loop p_y_step data t = Inr t' \<Longrightarrow> t' = t + int (count_y data 1)"
proof (induction data arbitrary: t)
  case Nil
  then show ?case by (simp add: count_y_def)
next
  case (Cons site data)
  from Cons.prems obtain t1 where b: "p_y_step site t = Inr t1"
    and l: "for_loop p_y_step data t1 = Inr t'"
    by (auto simp: bnd_Inr_iff)
  from b have "t1 = t + (if map_of site ''Result'' = Some 1 then 1 else 0)"
    by (auto simp: p_y_step_def bnd_Inr_iff getfield_Inr_iff)
  with Cons.IH [OF l] show ?case
    by (simp add: count_y_def)
qed

lemma calc_p_y_eq:
  assumes "calc_p_y data = Inr p"
  shows "data \<noteq> [] \<and> p = real (count_y data 1) / real (length data)"
proof -
  from assms obtain t where
    l: "for_loop p_y_step data 0 = Inr t"
    and d: "py_div t (int (length data)) = Inr p"
    by (auto simp: calc_p_y_def bnd_Inr_iff)
  from p_y_loop [OF l] d show ?thesis
    by (auto simp: py_div_def split: if_splits)
qed

lemma train_closed:
  assumes "train X data = Inr (m, p)"
  shows "\<exists>S. set S = observed data X \<and>
           m = PDict (fold (\<lambda>f. AList.update f (PDict (value_table data S f))) X [])"
    and "data \<noteq> []" and "p = real (count_y data 1) / real (length data)"
proof -
  from assms have c: "calc_probs_given_y X data = Inr m" and q: "calc_p_y data = Inr p"
    by (auto simp: train_def bnd_Inr_iff)
  from calc_probs_closed [OF c]
  show "\<exists>S. set S = observed data X \<and>
           m = PDict (fold (\<lambda>f. AList.update f (PDict (value_table data S f))) X [])" .
  from calc_p_y_eq [OF q] show "data \<noteq> []" and "p = real (count_y data 1) / real (length data)"
    by simp_all
qed

lemma value_table_Some:
  "map_of (value_table data S f) s = Some e \<Longrightarrow> \<exists>v\<in>set S. s = str_int v \<and> e = spec_entry data f v"
  unfolding value_table_def by (drule map_of_fold_update_Some) auto

lemma value_table_at:
  "map_of (value_table data S f) (str_int v) =
     (if v \<in> set S then Some (spec_entry data f v) else None)"
  unfolding value_table_def by (simp add: map_of_fold_update_inj [OF str_int_inj])

lemma train_entry:
  assumes "train X data = Inr (m, p)"
    and "getitem_key m f = Inr t" and "getitem_key t s = Inr e"
  shows "f \<in> set X \<and> (\<exists>v\<in>observed data X. s = str_int v \<and> e = spec_entry data f v)"
proof -
  from train_closed(1) [OF assms(1)] obtain S where S: "set S = observed data X"
    and m: "m = PDict (fold (\<lambda>f. AList.update f (PDict (value_table data S f))) X [])"
    by blast
  from assms(2) have f: "f \<in> set X" and t: "t = PDict (value_table data S f)"
    unfolding m by (auto simp: map_of_fold_update_const split: option.splits if_splits)
  from assms(3) have "map_of (value_table data S f) s = Some e"
    unfolding t by (auto split: option.splits)
  from value_table_Some [OF this] S f show ?thesis by auto
qed

lemma train_has_entry:
  assumes "train X data = Inr (m, p)" and "f \<in> set X" and "v \<in> observed data X"
  shows "\<exists>t. getitem_key m f = Inr t \<and> getitem_key t (str_int v) = Inr (spec_entry data f v)"
proof -
  from train_closed(1) [OF assms(1)] obtain S where S: "set S = observed data X"
    and m: "m = PDict (fold (\<lambda>f. AList.update f (PDict (value_table data S f))) X [])"
    by blast
  have 1: "getitem_key m f = Inr (PDict (value_table data S f))"
    unfolding m using assms(2) by (simp add: map_of_fold_update_const)
  have 2: "getitem_key (PDict (value_table data S f)) (str_int v) = Inr (spec_entry data f v)"
    using assms(3) S by (simp add: value_table_at)
  from 1 2 show ?thesis by blast
qed


lemma well_formed_site:
  assumes "well_formed X data" and "site \<in> set data"
  shows "\<exists>r. map_of site ''Result'' = Some r" and "x \<in> set X \<Longrightarrow> \<exists>v. map_of site x = Some v"
  using assms by (auto simp: well_formed_def list_all_iff)

lemma cond_prob_total:
  assumes "well_formed X data" and "f \<in> set X"
  shows "\<exists>q. cond_prob f v y data = Inr q"
proof -
  have "\<exists>c. for_loop (cond_prob_step f v y) data (0, 0) = Inr c"
  proof (rule for_loop_total)
    fix site t
    assume "site \<in> set data"
    from well_formed_site [OF assms(1) this] assms(2)
    obtain r w where "map_of site ''Result'' = Some r" "map_of site f = Some w" by blast
    then show "\<exists>t'. cond_prob_step f v y site t = Inr t'"
      by (cases t) (simp add: cond_prob_step_def getfield_def)
  qed
  then obtain c where c: "for_loop (cond_prob_step f v y) data (0, 0) = Inr c" ..
  from cond_prob_loop [OF c] have "c = (int (count_y data y), int (count_xy data f v y))" by simp
  with c show ?thesis
    by (simp add: cond_prob_def py_div_def)
qed

lemma calc_support_total:
  assumes "well_formed X data"
  shows "\<exists>support h. calc_support X data = Inr (support, h)"
proof -
  have "\<exists>h. for_loop (\<lambda>site. for_loop (support_step (dict_fromkeys X 0) site) X) data
              (snd (new_set empty_heap)) = Inr h"
  proof (rule for_loop_total)
    fix site t
    assume site: "site \<in> set data"
    show "\<exists>t'. for_loop (support_step (dict_fromkeys X 0) site) X t = Inr t'"
    proof (rule for_loop_total)
      fix x u
      assume x: "x \<in> set X"
      from well_formed_site(2) [OF assms site x] obtain w where "map_of site x = Some w" ..
      with x show "\<exists>t'. support_step (dict_fromkeys X 0) site x u = Inr t'"
        by (simp add: support_step_def map_of_dict_fromkeys getfield_def)
    qed
  qed
  then show ?thesis
    by (auto simp: calc_support_def new_set_def empty_heap_def Let_def)
qed

lemma calc_probs_total:
  assumes "well_formed X data"
  shows "\<exists>m. calc_probs_given_y X data = Inr m"
proof -
  from calc_support_total [OF assms] obtain support h where
    cs: "calc_support X data = Inr (support, h)" by blast
  have "\<exists>p. for_loop (probs_step support h data) X [] = Inr p"
  proof (rule for_loop_total)
    fix x t
    assume x: "x \<in> set X"
    have "\<exists>d. for_loop (table_step x data) (cells h 0) [] = Inr d"
    proof (rule for_loop_total)
      fix v d
      from cond_prob_total [OF assms x] obtain q0 q1 where
        "cond_prob x v (- 1) data = Inr q0" "cond_prob x v 1 data = Inr q1" by blast
      then show "\<exists>t'. table_step x data v d = Inr t'"
        by (simp add: table_step_def)
    qed
    with x show "\<exists>t'. probs_step support h data x t = Inr t'"
      by (auto simp: probs_step_def calc_support_shared(1) [OF cs])
  qed
  with cs show ?thesis
    by (auto simp: calc_probs_given_y_def)
qed

lemma calc_p_y_total:
  assumes "well_formed X data" and "data \<noteq> []"
  shows "calc_p_y data = Inr (real (count_y data 1) / real (length data))"
proof -
  have "\<exists>t. for_loop p_y_step data 0 = Inr t"
  proof (rule for_loop_total)
    fix site t
    assume "site \<in> set data"
    from well_formed_site(1) [OF assms(1) this] obtain r where "map_of site ''Result'' = Some r" ..
    then show "\<exists>t'. p_y_step site t = Inr t'"
      by (simp add: p_y_step_def getfield_def)
  qed
  then obtain t where t: "for_loop p_y_step data 0 = Inr t" ..
  from p_y_loop [OF t] t assms(2) show ?thesis
    by (simp add: calc_p_y_def py_div_def)
qed

lemma train_total:
  assumes "well_formed X data" and "data \<noteq> []"
  shows "\<exists>m. train X data = Inr (m, real (count_y data 1) / real (length data))"
  using calc_probs_total [OF assms(1)] calc_p_y_total [OF assms]
  by (auto simp: train_def)

text \<open>A table that \<^const>\<open>train\<close> returns satisfies the invariant of the table.\<close>

lemma set_fold_update:
  "set (fold (\<lambda>k. AList.update (key k) (g k)) ks d) \<subseteq> set d \<union> (\<lambda>k. (key k, g k)) ` set ks"
proof (induction ks arbitrary: d)
  case Nil
  then show ?case by simp
next
  case (Cons k ks)
  have "set (AList.update (key k) (g k) d) \<subseteq> insert (key k, g k) (set d)"
    by (induction d) auto
  with Cons.IH [of "AList.update (key k) (g k) d"] show ?case by auto
qed

lemma valid_pair_spec_entry: "valid_pair (spec_entry data f v)"
proof -
  have le: "\<And>y. real (count_xy data f v y) \<le> real (count_y data y)"
    using count_xy_le [of data f v] by simp
  show ?thesis
    using le [of "- 1"] le [of 1] by (simp add: spec_entry_def smoothed_def)
qed

lemma valid_value_table: "valid_table (PDict (value_table data S f))"
  using set_fold_update [of str_int "spec_entry data f" S "[]"]
  by (auto simp: value_table_def list_all_iff valid_pair_spec_entry)

lemma trained_table_valid:
  assumes "train X data = Inr (m, p)"
  shows "valid_probs m"
proof -
  from train_closed(1) [OF assms] obtain S where
    m: "m = PDict (fold (\<lambda>f. AList.update f (PDict (value_table data S f))) X [])"
    by blast
  have sub: "set (fold (\<lambda>f. AList.update f (PDict (value_table data S f))) X [])
               \<subseteq> (\<lambda>f. (f, PDict (value_table data S f))) ` set X"
    using set_fold_update [of "\<lambda>f. f" "\<lambda>f. PDict (value_table data S f)" X "[]"] by simp
  have "valid_table (snd kv)"
    if "kv \<in> set (fold (\<lambda>f. AList.update f (PDict (value_table data S f))) X [])" for kv
  proof -
    from that sub obtain f where "kv = (f, PDict (value_table data S f))" by blast
    then show ?thesis using valid_value_table [of data S f] by simp
  qed
  then show ?thesis
    unfolding m by (simp add: list_all_iff)
qed

section \<open>Training: the stored probabilities and the prior\<close>

text \<open>The definitions a concrete run of \<^const>\<open>train\<close> unfolds.\<close>

lemmas train_unfold =
  train_def calc_probs_given_y_def calc_support_def new_set_def empty_heap_def
  dict_fromkeys_def support_step_def getfield_def add_at_def set_add_def probs_step_def
  table_step_def cond_prob_def cond_prob_step_def py_div_def calc_p_y_def p_y_step_def

text \<open>
  Claim C3. For a non-empty training dataset in which every record has the label and the
  selected features (in particular one with rows of both classes), \<^const>\<open>train\<close>
  returns a model; its prior is \<open>count(Y = 1) / total_rows\<close>, unsmoothed; every pair it
  stores, under a feature \<open>f\<close> and a key \<open>s\<close>, is the pair for some value \<open>v\<close> with
  \<open>s = str(v)\<close> of \<open>(count(f = v AND Y = y) + 1) / (count(Y = y) + 2)\<close> for \<open>y = -1\<close> and
  \<open>y = 1\<close>; and the pair is stored for every value observed for \<open>f\<close>.
\<close>

theorem train_formula:
  assumes "well_formed X data" and "data \<noteq> []"
  shows "\<exists>m p. train X data = Inr (m, p) \<and>
           p = real (count_y data 1) / real (length data) \<and>
           (\<forall>f t s e. getitem_key m f = Inr t \<longrightarrow> getitem_key t s = Inr e \<longrightarrow>
              (\<exists>v. s = str_int v \<and>
                 e = PTuple [PFloat ((real (count_xy data f v (- 1)) + 1) / (real (count_y data (- 1)) + 2)),
                             PFloat ((real (count_xy data f v 1) + 1) / (real (count_y data 1) + 2))])) \<and>
           (\<forall>f\<in>set X. \<forall>v\<in>observed data [f]. \<exists>t. getitem_key m f = Inr t \<and>
              getitem_key t (str_int v) =
                Inr (PTuple [PFloat ((real (count_xy data f v (- 1)) + 1) / (real (count_y data (- 1)) + 2)),
                             PFloat ((real (count_xy data f v 1) + 1) / (real (count_y data 1) + 2))]))"
proof -
  from train_total [OF assms] obtain m where
    tr: "train X data = Inr (m, real (count_y data 1) / real (length data))" ..
  have 1: "\<forall>f t s e. getitem_key m f = Inr t \<longrightarrow> getitem_key t s = Inr e \<longrightarrow>
              (\<exists>v. s = str_int v \<and>
                 e = PTuple [PFloat ((real (count_xy data f v (- 1)) + 1) / (real (count_y data (- 1)) + 2)),
                             PFloat ((real (count_xy data f v 1) + 1) / (real (count_y data 1) + 2))])"
    using train_entry [OF tr] unfolding spec_entry_def smoothed_def by blast
  have 2: "\<forall>f\<in>set X. \<forall>v\<in>observed data [f]. \<exists>t. getitem_key m f = Inr t \<and>
              getitem_key t (str_int v) =
                Inr (PTuple [PFloat ((real (count_xy data f v (- 1)) + 1) / (real (count_y data (- 1)) + 2)),
                             PFloat ((real (count_xy data f v 1) + 1) / (real (count_y data 1) + 2))])"
  proof (intro ballI)
    fix f v assume f: "f \<in> set X" and v: "v \<in> observed data [f]"
    from f v have "v \<in> observed data X" by (auto simp: observed_def)
    from train_has_entry [OF tr f this]
    show "\<exists>t. getitem_key m f = Inr t \<and>
              getitem_key t (str_int v) =
                Inr (PTuple [PFloat ((real (count_xy data f v (- 1)) + 1) / (real (count_y data (- 1)) + 2)),
                             PFloat ((real (count_xy data f v 1) + 1) / (real (count_y data 1) + 2))])"
      unfolding spec_entry_def smoothed_def .
  qed
  from tr 1 2 show ?thesis by blast
qed

text \<open>A dataset with one row of each class: the prior is one half, the pairs are thirds.\<close>

theorem train_formula_witness:
  "well_formed [''a''] [[(''a'', 0), (''Result'', 1)], [(''a'', 1), (''Result'', - 1)]] \<and>
   [[(''a'', 0), (''Result'', 1)], [(''a'', 1), (''Result'', - 1)]] \<noteq> ([] :: site list) \<and>
   train [''a''] [[(''a'', 0), (''Result'', 1)], [(''a'', 1), (''Result'', - 1)]] =
     Inr (PDict [(''a'', PDict [(''0'', PTuple [PFloat (1 / 3), PFloat (2 / 3)]),
                               (''1'', PTuple [PFloat (2 / 3), PFloat (1 / 3)])])], 1 / 2) \<and>
   real (count_y [[(''a'', 0), (''Result'', 1)], [(''a'', 1), (''Result'', - 1)]] 1) /
     real (length [[(''a'', 0 :: int), (''Result'', 1)], [(''a'', 1), (''Result'', - 1)]]) = 1 / 2"
proof -
  let ?D = "[[(''a'', 0), (''Result'', 1)], [(''a'', 1), (''Result'', - 1)]] :: site list"
  have wf: "well_formed [''a''] ?D" by (simp add: well_formed_def)
  have ne: "?D \<noteq> []" by simp
  have ev: "train [''a''] ?D =
     Inr (PDict [(''a'', PDict [(''0'', PTuple [PFloat (1 / 3), PFloat (2 / 3)]),
                               (''1'', PTuple [PFloat (2 / 3), PFloat (1 / 3)])])], 1 / 2)"
    by (simp add: train_unfold)
  from train_formula [OF wf ne] obtain m p where
    "train [''a''] ?D = Inr (m, p)" and "p = real (count_y ?D 1) / real (length ?D)"
    by blast
  with ev have "real (count_y ?D 1) / real (length ?D) = 1 / 2" by simp
  with wf ne ev show ?thesis by blast
qed

text \<open>
  Claim C4. Every conditional probability \<^const>\<open>cond_prob\<close> computes, for any feature,
  value and label, and every probability stored in a trained table, lies strictly between
  0 and 1: a value that never occurs with the label gives \<open>1 / (count(Y = y) + 2)\<close>, a
  label with no rows gives one half.
\<close>

theorem smoothing_bounds:
  "(cond_prob feat v y data = Inr q \<longrightarrow> 0 < q \<and> q < 1) \<and>
   (train X data = Inr (m, p) \<longrightarrow> getitem_key m f = Inr t \<longrightarrow> getitem_key t s = Inr e \<longrightarrow>
      (\<exists>p0 p1. e = PTuple [PFloat p0, PFloat p1] \<and> 0 < p0 \<and> p0 < 1 \<and> 0 < p1 \<and> p1 < 1))"
proof (intro conjI impI)
  assume "cond_prob feat v y data = Inr q"
  from cond_prob_bounds [OF this] show "0 < q" and "q < 1" by simp_all
next
  assume tr: "train X data = Inr (m, p)" and 1: "getitem_key m f = Inr t"
    and 2: "getitem_key t s = Inr e"
  from train_entry [OF tr 1 2] obtain w where e: "e = spec_entry data f w" by blast
  have le: "\<And>y. real (count_xy data f w y) \<le> real (count_y data y)"
    using count_xy_le [of data f w] by simp
  have "0 < smoothed data f w (- 1) \<and> smoothed data f w (- 1) < 1"
    using le [of "- 1"] by (simp add: smoothed_def)
  moreover have "0 < smoothed data f w 1 \<and> smoothed data f w 1 < 1"
    using le [of 1] by (simp add: smoothed_def)
  ultimately show "\<exists>p0 p1. e = PTuple [PFloat p0, PFloat p1] \<and> 0 < p0 \<and> p0 < 1 \<and> 0 < p1 \<and> p1 < 1"
    unfolding e spec_entry_def by blast
qed

text \<open>
  The value 5 never occurs and no row has the label -1: the probability is one half; the
  table trained on the one row holds one half and two thirds.
\<close>

theorem smoothing_bounds_witness:
  "cond_prob ''a'' 5 (- 1) [[(''a'', 0), (''Result'', 1)]] = Inr (1 / 2) \<and>
   train [''a''] [[(''a'', 0), (''Result'', 1)]] =
     Inr (PDict [(''a'', PDict [(''0'', PTuple [PFloat (1 / 2), PFloat (2 / 3)])])], 1) \<and>
   (\<exists>p0 p1. PTuple [PFloat (1 / 2), PFloat (2 / 3)] = PTuple [PFloat p0, PFloat p1] \<and>
      0 < p0 \<and> p0 < 1 \<and> 0 < p1 \<and> p1 < 1) \<and>
   (0::real) < 1 / 2 \<and> (1 / 2 :: real) < 1"
proof -
  let ?D = "[[(''a'', 0), (''Result'', 1)]] :: site list"
  let ?T = "PDict [(''0'', PTuple [PFloat (1 / 2), PFloat (2 / 3)])]"
  let ?M = "PDict [(''a'', ?T)]"
  have c: "cond_prob ''a'' 5 (- 1) ?D = Inr (1 / 2)"
    by (simp add: train_unfold)
  have t: "train [''a''] ?D = Inr (?M, 1)"
    by (simp add: train_unfold)
  have g1: "getitem_key ?M ''a'' = Inr ?T" by simp
  have g2: "getitem_key ?T ''0'' = Inr (PTuple [PFloat (1 / 2), PFloat (2 / 3)])" by simp
  note b = smoothing_bounds [where feat = "''a''" and v = 5 and y = "- 1" and data = ?D
      and q = "1 / 2" and X = "[''a'']" and m = ?M and p = 1 and f = "''a''" and t = ?T
      and s = "''0''" and e = "PTuple [PFloat (1 / 2), PFloat (2 / 3)]"]
  from b c have 1: "(0::real) < 1 / 2 \<and> (1 / 2 :: real) < 1" by blast
  from b t g1 g2 have 2: "\<exists>p0 p1. PTuple [PFloat (1 / 2), PFloat (2 / 3)] = PTuple [PFloat p0, PFloat p1] \<and>
      0 < p0 \<and> p0 < 1 \<and> 0 < p1 \<and> p1 < 1" by blast
  from c t 1 2 show ?thesis by blast
qed

section \<open>Training on a single class\<close>

lemma prediction_prior_0: "prediction ops site Xs model 0 = Inl ValueError"
  by (simp add: prediction_def fl_sub_pos)

lemma prediction_prior_1: "prediction ops site Xs model 1 = Inl ValueError"
  by (simp add: prediction_def fl_sub_pos)

lemma well_formed_Nil: "well_formed X []"
  by (simp add: well_formed_def)

lemma train_empty: "train X [] = Inl ZeroDivisionError"
  using calc_probs_total [OF well_formed_Nil, of X]
  by (auto simp: train_def calc_p_y_def py_div_def)

text \<open>
  Claim C8, as stated, fails: on a dataset whose only row is legitimate, \<^const>\<open>train\<close>
  does not fail; it returns a model whose prior is 0.
\<close>

theorem train_one_class_counterexample:
  "train [''a''] [[(''a'', 0), (''Result'', - 1)]] =
     Inr (PDict [(''a'', PDict [(''0'', PTuple [PFloat (2 / 3), PFloat (1 / 2)])])], 0)"
  by (simp add: train_unfold)


text \<open>
  Claim C8, amended. \<^const>\<open>train\<close> has no check of the classes. On a non-empty dataset
  with no row labelled 1 it returns a model with prior 0, and with every row labelled 1 a
  model with prior 1; \<^const>\<open>prediction\<close> with a prior of 0 or 1 then fails with the
  math domain error of \<open>log(0)\<close>, whatever the record and whatever the float arithmetic.
  Training fails, with a division by zero, on the empty dataset.
\<close>

theorem train_one_class:
  assumes "well_formed X data" and "data \<noteq> []"
  shows "(count_y data 1 = 0 \<longrightarrow> (\<exists>m. train X data = Inr (m, 0))) \<and>
         (count_y data 1 = length data \<longrightarrow> (\<exists>m. train X data = Inr (m, 1))) \<and>
         prediction ops site Xs model 0 = Inl ValueError \<and>
         prediction ops site Xs model 1 = Inl ValueError \<and>
         train X [] = Inl ZeroDivisionError"
proof -
  from train_total [OF assms] obtain m where
    tr: "train X data = Inr (m, real (count_y data 1) / real (length data))" ..
  have a: "count_y data 1 = 0 \<longrightarrow> (\<exists>m. train X data = Inr (m, 0))"
    using tr by auto
  have b: "count_y data 1 = length data \<longrightarrow> (\<exists>m. train X data = Inr (m, 1))"
    using tr assms(2) by auto
  from a b show ?thesis
    by (simp add: prediction_prior_0 prediction_prior_1 train_empty)
qed

theorem train_one_class_witness:
  "well_formed [''a''] [[(''a'', 0), (''Result'', - 1)]] \<and>
   [[(''a'', 0), (''Result'', - 1)]] \<noteq> ([] :: site list) \<and>
   count_y [[(''a'', 0), (''Result'', - 1)]] 1 = 0 \<and>
   (\<exists>m. train [''a''] [[(''a'', 0), (''Result'', - 1)]] = Inr (m, 0)) \<and>
   well_formed [''a''] [[(''a'', 0), (''Result'', 1)]] \<and>
   count_y [[(''a'', 0), (''Result'', 1)]] 1 = length [[(''a'', 0 :: int), (''Result'', 1)]] \<and>
   (\<exists>m. train [''a''] [[(''a'', 0), (''Result'', 1)]] = Inr (m, 1)) \<and>
   prediction exact_ops [(''a'', 0)] [''a''] (PDict []) 0 = Inl ValueError"
proof -
  let ?D = "[[(''a'', 0), (''Result'', - 1)]] :: site list"
  let ?E = "[[(''a'', 0), (''Result'', 1)]] :: site list"
  have wf: "well_formed [''a''] ?D" "well_formed [''a''] ?E" by (simp_all add: well_formed_def)
  have c: "count_y ?D 1 = 0" "count_y ?E 1 = length ?E" by (simp_all add: count_y_def)
  from train_one_class [OF wf(1), of exact_ops "[(''a'', 0)]" "[''a'']" "PDict []"] c(1)
  have 1: "(\<exists>m. train [''a''] ?D = Inr (m, 0))"
    and 3: "prediction exact_ops [(''a'', 0)] [''a''] (PDict []) 0 = Inl ValueError" by simp_all
  from train_one_class [OF wf(2), of exact_ops "[(''a'', 0)]" "[''a'']" "PDict []"] c(2)
  have 2: "(\<exists>m. train [''a''] ?E = Inr (m, 1))" by simp
  from wf c 1 2 3 show ?thesis by simp
qed

section \<open>The support of a feature\<close>

text \<open>
  Claim C1 fails on the code, by the aliasing of \<^verbatim>\<open>dict.fromkeys(X, set())\<close>: every
  key of \<^verbatim>\<open>support\<close> refers to the one set object, so each feature's support is the
  set of the values of all selected features (lemma \<open>calc_support_shared\<close>). Here
  feature \<open>a\<close> only takes the value 0 and feature \<open>b\<close> only the value 1; the support
  computed for each is \<open>{0, 1}\<close>, and the table of \<open>a\<close> has an entry for the value 1
  that was observed only for \<open>b\<close>.
\<close>

theorem calc_support_one_set:
  "support_sets [''a'', ''b''] [[(''a'', 0), (''b'', 1), (''Result'', 1)]] =
     Inr [(''a'', [0, 1]), (''b'', [0, 1])] \<and>
   calc_probs_given_y [''a'', ''b''] [[(''a'', 0), (''b'', 1), (''Result'', 1)]] =
     Inr (PDict [(''a'', PDict [(''0'', PTuple [PFloat (1 / 2), PFloat (2 / 3)]),
                               (''1'', PTuple [PFloat (1 / 2), PFloat (1 / 3)])]),
                 (''b'', PDict [(''0'', PTuple [PFloat (1 / 2), PFloat (1 / 3)]),
                               (''1'', PTuple [PFloat (1 / 2), PFloat (2 / 3)])])])"
  by (simp add: support_sets_def train_unfold)

section \<open>Prediction\<close>

lemma py_log_Inr_iff:
  "py_log ops e = Inr l \<longleftrightarrow> (\<exists>x. e = PFloat x \<and> 0 < x \<and> l = fl_log ops x)"
  by (cases e) auto

lemma entry_log_Inr_iff:
  "bnd (table_entry probs site f c) (py_log ops) = Inr l \<longleftrightarrow>
     0 < prob probs site f c \<and> l = fl_log ops (prob probs site f c)"
proof (cases "table_entry probs site f c")
  case (Inl e)
  then show ?thesis by (simp add: prob_def)
next
  case (Inr v)
  then show ?thesis by (cases v) (auto simp: prob_def)
qed

lemma prediction_step_Inr_iff:
  "prediction_step ops site probs f (a, b) = Inr c \<longleftrightarrow>
     0 < prob probs site f 0 \<and> 0 < prob probs site f 1 \<and>
     c = (fl_add ops a (fl_log ops (prob probs site f 0)),
          fl_add ops b (fl_log ops (prob probs site f 1)))"
proof -
  define L where "L c = bnd (table_entry probs site f c) (py_log ops)" for c
  have e: "prediction_step ops site probs f (a, b) =
          bnd (L 0) (\<lambda>l0. bnd (L 1) (\<lambda>l1. Inr (fl_add ops a l0, fl_add ops b l1)))"
    by (simp add: L_def prediction_step_def bnd_def split: sum.splits)
  have L: "\<And>c l. L c = Inr l \<longleftrightarrow>
             0 < prob probs site f c \<and> l = fl_log ops (prob probs site f c)"
    unfolding L_def by (rule entry_log_Inr_iff)
  show ?thesis
    unfolding e by (auto simp: bnd_Inr_iff L)
qed

lemma prediction_loop_Inr_iff:
  "for_loop (prediction_step ops site probs) X (a, b) = Inr c \<longleftrightarrow>
     scorable probs site X \<and>
     c = (score ops a probs site X 0, score ops b probs site X 1)"
proof (induction X arbitrary: a b)
  case Nil
  then show ?case by (auto simp: scorable_def score_def)
next
  case (Cons f X)
  show ?case
    by (auto simp: bnd_Inr_iff prediction_step_Inr_iff Cons.IH scorable_def score_def)
qed

lemma prediction_Inr_iff:
  "prediction ops site X probs p_y = Inr b \<longleftrightarrow>
     0 < p_y \<and> p_y < 1 \<and> scorable probs site X \<and>
     b = (score ops (fl_log ops p_y) probs site X 1
            > score ops (fl_log ops (fl_sub ops 1 p_y)) probs site X 0)"
  by (auto simp: prediction_def bnd_Inr_iff py_log_Inr_iff prediction_loop_Inr_iff fl_sub_pos)

lemma prob_at:
  assumes "getitem_key probs f = Inr t" and "getfield site f = Inr v"
    and "getitem_key t (str_int v) = Inr (PTuple [PFloat a, PFloat c])"
  shows "prob probs site f 0 = a" and "prob probs site f 1 = c"
  using assms by (simp_all add: prob_def table_entry_def)

text \<open>
  Claim C2. For every record, feature list, table and prior, and whatever the float
  arithmetic, \<^const>\<open>prediction\<close> returns a verdict \<open>b\<close> exactly when the prior is
  strictly between 0 and 1 and every listed feature has two positive entries. The score
  of the label 1 then starts at \<open>log(p_y)\<close> and that of the label -1 at \<open>log(1 - p_y)\<close>;
  for each listed feature in turn the log of the entry 1, respectively 0, is added to it
  by the float addition; and \<open>b\<close> is true exactly when the score of 1 is strictly greater
  than the score of -1, so that two equal scores give false. The entries are the
  components 0 and 1 of the pair stored under the feature at the record's stringified
  value.
\<close>

theorem prediction_decision:
  "(prediction ops site X probs p_y = Inr b \<longleftrightarrow>
      0 < p_y \<and> p_y < 1 \<and> scorable probs site X \<and>
      b = (foldl (fl_add ops) (fl_log ops p_y)
             (map (\<lambda>f. fl_log ops (prob probs site f 1)) X)
           > foldl (fl_add ops) (fl_log ops (fl_sub ops 1 p_y))
               (map (\<lambda>f. fl_log ops (prob probs site f 0)) X))) \<and>
   (0 < p_y \<and> p_y < 1 \<and> scorable probs site X \<and>
    foldl (fl_add ops) (fl_log ops p_y) (map (\<lambda>f. fl_log ops (prob probs site f 1)) X)
      = foldl (fl_add ops) (fl_log ops (fl_sub ops 1 p_y))
          (map (\<lambda>f. fl_log ops (prob probs site f 0)) X) \<longrightarrow>
      prediction ops site X probs p_y = Inr False) \<and>
   (getitem_key probs f = Inr t \<and> getfield site f = Inr v \<and>
    getitem_key t (str_int v) = Inr (PTuple [PFloat a, PFloat c]) \<longrightarrow>
      prob probs site f 0 = a \<and> prob probs site f 1 = c)"
proof (intro conjI)
  show "prediction ops site X probs p_y = Inr b \<longleftrightarrow>
      0 < p_y \<and> p_y < 1 \<and> scorable probs site X \<and>
      b = (foldl (fl_add ops) (fl_log ops p_y)
             (map (\<lambda>f. fl_log ops (prob probs site f 1)) X)
           > foldl (fl_add ops) (fl_log ops (fl_sub ops 1 p_y))
               (map (\<lambda>f. fl_log ops (prob probs site f 0)) X))"
    unfolding prediction_Inr_iff score_def ..
  show "0 < p_y \<and> p_y < 1 \<and> scorable probs site X \<and>
    foldl (fl_add ops) (fl_log ops p_y) (map (\<lambda>f. fl_log ops (prob probs site f 1)) X)
      = foldl (fl_add ops) (fl_log ops (fl_sub ops 1 p_y))
          (map (\<lambda>f. fl_log ops (prob probs site f 0)) X) \<longrightarrow>
      prediction ops site X probs p_y = Inr False"
    unfolding prediction_Inr_iff score_def by simp
  show "getitem_key probs f = Inr t \<and> getfield site f = Inr v \<and>
    getitem_key t (str_int v) = Inr (PTuple [PFloat a, PFloat c]) \<longrightarrow>
      prob probs site f 0 = a \<and> prob probs site f 1 = c"
    using prob_at [of probs f t site v a c] by blast
qed

text \<open>
  With the arithmetic that does not round: a record scored as phishing (entries one third
  and two thirds, prior one half), and two equal scores (both entries two thirds) scored
  as legitimate.
\<close>

theorem prediction_decision_witness:
  "prediction exact_ops [(''a'', 0)] [''a'']
     (PDict [(''a'', PDict [(''0'', PTuple [PFloat (1 / 3), PFloat (2 / 3)])])]) (1 / 2) = Inr True \<and>
   prediction exact_ops [(''a'', 0)] [''a'']
     (PDict [(''a'', PDict [(''0'', PTuple [PFloat (2 / 3), PFloat (2 / 3)])])]) (1 / 2) = Inr False \<and>
   prob (PDict [(''a'', PDict [(''0'', PTuple [PFloat (1 / 3), PFloat (2 / 3)])])])
     [(''a'', 0)] ''a'' 0 = 1 / 3 \<and>
   prob (PDict [(''a'', PDict [(''0'', PTuple [PFloat (1 / 3), PFloat (2 / 3)])])])
     [(''a'', 0)] ''a'' 1 = 2 / 3"
proof -
  let ?s = "[(''a'', 0)] :: site"
  let ?P = "PDict [(''a'', PDict [(''0'', PTuple [PFloat (1 / 3), PFloat (2 / 3)])])]"
  let ?Q = "PDict [(''a'', PDict [(''0'', PTuple [PFloat (2 / 3), PFloat (2 / 3)])])]"
  have g: "getitem_key ?P ''a'' = Inr (PDict [(''0'', PTuple [PFloat (1 / 3), PFloat (2 / 3)])])"
    "getfield ?s ''a'' = Inr 0"
    "getitem_key (PDict [(''0'', PTuple [PFloat (1 / 3), PFloat (2 / 3)])]) (str_int 0) =
       Inr (PTuple [PFloat (1 / 3), PFloat (2 / 3)])"
    by (simp_all add: getfield_def)
  note d = prediction_decision [where ops = exact_ops and site = ?s and X = "[''a'']"
      and p_y = "1 / 2" and f = "''a''" and v = 0 and a = "1 / 3" and c = "2 / 3"
      and t = "PDict [(''0'', PTuple [PFloat (1 / 3), PFloat (2 / 3)])]"]
  from d [where probs = ?P and b = True] g
  have p: "prob ?P ?s ''a'' 0 = 1 / 3" "prob ?P ?s ''a'' 1 = 2 / 3" by blast+
  have q: "prob ?Q ?s ''a'' 0 = 2 / 3" "prob ?Q ?s ''a'' 1 = 2 / 3"
    by (simp_all add: prob_def table_entry_def getfield_def)
  have 1: "prediction exact_ops ?s [''a''] ?P (1 / 2) = Inr True"
    using d [where probs = ?P and b = True] p by (simp add: scorable_def)
  have 2: "prediction exact_ops ?s [''a''] ?Q (1 / 2) = Inr False"
    using d [where probs = ?Q and b = False] q by (simp add: scorable_def)
  from 1 2 p show ?thesis by simp
qed

section \<open>A value that was not seen in training\<close>

lemma for_loop_Inl:
  "for_loop body xs s = Inl e \<Longrightarrow> \<exists>x\<in>set xs. \<exists>t. body x t = Inl e"
proof (induction xs arbitrary: s)
  case Nil
  then show ?case by simp
next
  case (Cons x xs)
  then show ?case
    by (cases "body x s") (auto simp: bnd_def)
qed

lemma valid_entry:
  assumes "valid_probs probs" and "map_of site g \<noteq> None" and "c < 2"
  shows "table_entry probs site g c = Inl KeyError \<or>
         (\<exists>q. table_entry probs site g c = Inr (PFloat q) \<and> 0 < q)"
proof -
  from assms(1) obtain d where probs: "probs = PDict d"
    and d: "list_all (\<lambda>kv. valid_table (snd kv)) d"
    by (cases probs) auto
  from assms(2) obtain v where v: "map_of site g = Some v" by auto
  show ?thesis
  proof (cases "map_of d g")
    case None
    then show ?thesis by (simp add: probs table_entry_def)
  next
    case (Some t)
    then have "(g, t) \<in> set d" by (rule map_of_SomeD)
    with d have "valid_table t" by (auto simp: list_all_iff)
    then obtain tt where t: "t = PDict tt" and tt: "list_all (\<lambda>kv. valid_pair (snd kv)) tt"
      by (cases t) auto
    show ?thesis
    proof (cases "map_of tt (str_int v)")
      case None
      with Some v show ?thesis by (simp add: probs t table_entry_def getfield_def)
    next
      case (Some pair)
      then have "(str_int v, pair) \<in> set tt" by (rule map_of_SomeD)
      with tt have "valid_pair pair" by (auto simp: list_all_iff)
      then obtain a b where pair: "pair = PTuple [PFloat a, PFloat b]" and "0 < a" "0 < b"
        by (cases pair rule: valid_pair.cases) auto
      with assms(3) have "\<exists>q. getitem_idx pair c = Inr (PFloat q) \<and> 0 < q"
        by (cases c) (auto simp: less_Suc_eq)
      with Some \<open>map_of d g = Some t\<close> v show ?thesis
        by (simp add: probs t table_entry_def getfield_def)
    qed
  qed
qed

lemma valid_step_error:
  assumes "valid_probs probs" and "map_of site g \<noteq> None"
    and "prediction_step ops site probs g sc = Inl e"
  shows "e = KeyError"
proof -
  from valid_entry [OF assms(1,2), of 0] valid_entry [OF assms(1,2), of 1] assms(3)
  show ?thesis
    by (cases sc) (auto simp: prediction_step_def)
qed

lemma unseen_no_verdict:
  assumes "f \<in> set X" and "getitem_key probs f = Inr t" and "getfield site f = Inr v"
    and "getitem_key t (str_int v) = Inl KeyError"
  shows "\<not> scorable probs site X"
proof
  have "table_entry probs site f 0 = Inl KeyError"
    using assms(2-4) by (simp add: table_entry_def)
  then have p0: "prob probs site f 0 = 0" by (simp add: prob_def)
  assume "scorable probs site X"
  with assms(1) have "0 < prob probs site f 0" by (simp add: scorable_def list_all_iff)
  with p0 show False by simp
qed

lemma unseen_key_error:
  assumes "\<not> scorable probs site X" and "0 < p_y" and "p_y < 1" and "valid_probs probs"
    and "list_all (\<lambda>g. map_of site g \<noteq> None) X"
  shows "prediction ops site X probs p_y = Inl KeyError"
proof -
  let ?l = "for_loop (prediction_step ops site probs) X
              (fl_log ops (fl_sub ops 1 p_y), fl_log ops p_y)"
  have "\<exists>e. ?l = Inl e"
  proof (cases ?l)
    case (Inl e)
    then show ?thesis by blast
  next
    case (Inr c)
    with assms(1) show ?thesis by (simp add: prediction_loop_Inr_iff)
  qed
  then obtain e where e: "?l = Inl e" ..
  from for_loop_Inl [OF e] obtain g sc where "g \<in> set X"
    and "prediction_step ops site probs g sc = Inl e" by blast
  with assms(4,5) have "e = KeyError"
    using valid_step_error [of probs site g ops sc e] by (auto simp: list_all_iff)
  with e assms(2,3) show ?thesis
    by (simp add: prediction_def fl_sub_pos)
qed

text \<open>
  Claim C7, as stated, fails: the model \<^const>\<open>train\<close> returns for one legitimate row has
  the prior 0 and a table with the value 0 only; on a record with the unseen value 1
  \<^const>\<open>prediction\<close> fails at \<open>log(p_y)\<close> with the math domain error, before any lookup,
  and not with the key-lookup error.
\<close>

theorem unseen_value_counterexample:
  "train [''a''] [[(''a'', 0), (''Result'', - 1)]] =
     Inr (PDict [(''a'', PDict [(''0'', PTuple [PFloat (2 / 3), PFloat (1 / 2)])])], 0) \<and>
   getitem_key (PDict [(''0'', PTuple [PFloat (2 / 3), PFloat (1 / 2)])]) (str_int 1) = Inl KeyError \<and>
   prediction exact_ops [(''a'', 1)] [''a'']
     (PDict [(''a'', PDict [(''0'', PTuple [PFloat (2 / 3), PFloat (1 / 2)])])]) 0 = Inl ValueError"
  by (simp add: train_unfold prediction_prior_0)

text \<open>
  Claim C7, amended. When for some listed feature the record's stringified value has no
  entry in that feature's table, a call of \<^const>\<open>prediction\<close> on the table returns no
  verdict, whatever the prior, the rest of the table and the float arithmetic: it fails
  and does not default to any probability, and it leaves the store, and so the model, as
  it was. The failure is the key-lookup error when the prior is strictly between 0 and 1,
  the table satisfies its invariant (as every table that \<^const>\<open>train\<close> returns does) and
  the record has every listed feature; with a prior of 0 or 1 it is the math domain error
  of the logarithm.
\<close>

theorem unseen_value_fails:
  assumes "f \<in> set X" and "getitem_key (objs w a) f = Inr t" and "getfield site f = Inr v"
    and "getitem_key t (str_int v) = Inl KeyError"
  shows "(\<exists>e. prediction_call ops site X a p_y w = (Inl e, w)) \<and>
         (0 < p_y \<and> p_y < 1 \<and> valid_probs (objs w a) \<and>
          list_all (\<lambda>g. map_of site g \<noteq> None) X \<longrightarrow>
            prediction_call ops site X a p_y w = (Inl KeyError, w)) \<and>
         (0 < p_y \<and> p_y < 1 \<and> train X data = Inr (objs w a, p_y) \<and>
          list_all (\<lambda>g. map_of site g \<noteq> None) X \<longrightarrow>
            prediction_call ops site X a p_y w = (Inl KeyError, w)) \<and>
         (p_y = 0 \<or> p_y = 1 \<longrightarrow> prediction_call ops site X a p_y w = (Inl ValueError, w))"
proof -
  let ?P = "objs w a"
  have ns: "\<not> scorable ?P site X"
    by (rule unseen_no_verdict [OF assms])
  have 1: "\<exists>e. prediction_call ops site X a p_y w = (Inl e, w)"
  proof (cases "prediction ops site X ?P p_y")
    case (Inl e)
    then show ?thesis by (simp add: prediction_call_def)
  next
    case (Inr b)
    with ns show ?thesis by (simp add: prediction_Inr_iff)
  qed
  have 2: "prediction_call ops site X a p_y w = (Inl KeyError, w)"
    if "0 < p_y" "p_y < 1" "valid_probs ?P" "list_all (\<lambda>g. map_of site g \<noteq> None) X"
    using unseen_key_error [OF ns that] by (simp add: prediction_call_def)
  have 3: "prediction_call ops site X a p_y w = (Inl KeyError, w)"
    if h: "0 < p_y" "p_y < 1" "train X data = Inr (?P, p_y)"
      "list_all (\<lambda>g. map_of site g \<noteq> None) X"
    using 2 [OF h(1,2) trained_table_valid [OF h(3)] h(4)] .
  have 4: "prediction_call ops site X a p_y w = (Inl ValueError, w)" if "p_y = 0 \<or> p_y = 1"
    using that by (auto simp: prediction_call_def prediction_prior_0 prediction_prior_1)
  from 1 2 3 4 show ?thesis by blast
qed

text \<open>
  The table, at address 0 of the store, is trained on two rows that have the value 0
  only; the record has the value 1.
\<close>

theorem unseen_value_fails_witness:
  "''a'' \<in> set [''a''] \<and>
   train [''a''] [[(''a'', 0), (''Result'', 1)], [(''a'', 0), (''Result'', - 1)]] =
     Inr (PDict [(''a'', PDict [(''0'', PTuple [PFloat (2 / 3), PFloat (2 / 3)])])], 1 / 2) \<and>
   getitem_key (PDict [(''a'', PDict [(''0'', PTuple [PFloat (2 / 3), PFloat (2 / 3)])])]) ''a'' =
     Inr (PDict [(''0'', PTuple [PFloat (2 / 3), PFloat (2 / 3)])]) \<and>
   getfield [(''a'', 1)] ''a'' = Inr 1 \<and>
   getitem_key (PDict [(''0'', PTuple [PFloat (2 / 3), PFloat (2 / 3)])]) (str_int 1) = Inl KeyError \<and>
   valid_probs (PDict [(''a'', PDict [(''0'', PTuple [PFloat (2 / 3), PFloat (2 / 3)])])]) \<and>
   prediction_call exact_ops [(''a'', 1)] [''a''] 0 (1 / 2)
     \<lparr>objs = (\<lambda>_. PDict [(''a'', PDict [(''0'', PTuple [PFloat (2 / 3), PFloat (2 / 3)])])]),
      files = Map.empty\<rparr> =
     (Inl KeyError,
      \<lparr>objs = (\<lambda>_. PDict [(''a'', PDict [(''0'', PTuple [PFloat (2 / 3), PFloat (2 / 3)])])]),
       files = Map.empty\<rparr>)"
proof -
  let ?T = "PDict [(''0'', PTuple [PFloat (2 / 3), PFloat (2 / 3)])]"
  let ?P = "PDict [(''a'', ?T)]"
  let ?w = "\<lparr>objs = (\<lambda>_. ?P), files = Map.empty\<rparr>"
  let ?s = "[(''a'', 1)] :: site"
  let ?D = "[[(''a'', 0), (''Result'', 1)], [(''a'', 0), (''Result'', - 1)]] :: site list"
  have 1: "''a'' \<in> set [''a'']" by simp
  have 2: "getitem_key (objs ?w 0) ''a'' = Inr ?T" by simp
  have 3: "getfield ?s ''a'' = Inr 1" by (simp add: getfield_def)
  have 4: "getitem_key ?T (str_int 1) = Inl KeyError" by simp
  have 5: "valid_probs ?P" by simp
  have 6: "list_all (\<lambda>g. map_of ?s g \<noteq> None) [''a'']" by simp
  have 7: "train [''a''] ?D = Inr (?P, 1 / 2)" by (simp add: train_unfold)
  from unseen_value_fails [OF 1 2 3 4, of exact_ops "1 / 2" ?D] 6 7
  have "prediction_call exact_ops ?s [''a''] 0 (1 / 2) ?w = (Inl KeyError, ?w)" by simp
  with 1 2 3 4 5 7 show ?thesis by simp
qed

section \<open>Saving and loading a model\<close>

lemma save_model_effect:
  assumes "objs w a = PDict d"
  shows "save_model a p w =
     Inr (w\<lparr>objs := (objs w)(a := PDict (AList.update ''p_y'' (PFloat p) d)),
            files := (files w)(''model.txt'' \<mapsto> json_dump (PDict (AList.update ''p_y'' (PFloat p) d)))\<rparr>)"
  using assms by (simp add: save_model_def setitem_def Let_def)

text \<open>
  Claim C6 fails on the code: \<^verbatim>\<open>model = probs_given_y\<close> binds a second name to the
  caller's dict, and \<^verbatim>\<open>model["p_y"] = p_y\<close> then adds the key \<^verbatim>\<open>p_y\<close> to that dict
  (lemma \<open>save_model_effect\<close>). Here the table at address 0 has the one feature \<open>a\<close>
  before the call and the two keys \<open>a\<close> and \<open>p_y\<close> after it.
\<close>

theorem save_model_mutates_table:
  "bnd (save_model 0 (1 / 2)
          \<lparr>objs = (\<lambda>_. PDict [(''a'', PDict [(''0'', PTuple [PFloat (1 / 3), PFloat (2 / 3)])])]),
           files = Map.empty\<rparr>)
       (\<lambda>w. Inr (objs w 0)) =
     Inr (PDict [(''a'', PDict [(''0'', PTuple [PFloat (1 / 3), PFloat (2 / 3)])]),
                 (''p_y'', PFloat (1 / 2))])"
  by (simp add: save_model_def setitem_def Let_def)

lemma json_round_trip: "json_load (json_dump v) = as_lists v"
  by (induction v) (auto simp: list.pred_set prod.pred_set intro!: map_idI)


lemma map_of_map_prod:
  "map_of (map (map_prod id f) d) k = map_option f (map_of d k)"
  by (induction d) auto

text \<open>
  What \<^const>\<open>load_model\<close> returns after \<^const>\<open>save_model\<close>, as far as the structure
  goes: the dict that was saved, the prior under the key \<^verbatim>\<open>p_y\<close>, with every tuple as a
  list. A number passes through the file by the definition of \<^const>\<open>json_dump\<close> and
  \<^const>\<open>json_load\<close>, so nothing is said here about the precision with which the
  library writes and reads a float.
\<close>

lemma save_then_load:
  assumes "objs w a = PDict d"
  shows "bnd (save_model a p_y w) load_model =
           Inr (as_lists (PDict (AList.update ''p_y'' (PFloat p_y) d)))"
  unfolding save_model_effect [OF assms]
  by (simp add: load_model_def json_round_trip del: json_dump.simps json_load.simps as_lists.simps)

section \<open>Evaluation metrics\<close>

lemma test_step_eq:
  assumes "prediction ops site X probs p_y = Inr b" and "map_of site ''Result'' = Some r"
  shows "test_step ops X probs p_y site t =
     Inr \<lparr>correctly_phish = correctly_phish t + (if b \<and> r = 1 then 1 else 0),
          correctly_not_phish = correctly_not_phish t + (if \<not> b \<and> r = - 1 then 1 else 0),
          predicted_phish = predicted_phish t + (if b then 1 else 0),
          actual_phish = actual_phish t + (if r = 1 then 1 else 0)\<rparr>"
  using assms by (simp add: test_step_def getfield_def)

lemma test_loop:
  assumes "scored ops X probs p_y data"
  shows "for_loop (test_step ops X probs p_y) data t =
     Inr \<lparr>correctly_phish = correctly_phish t + int (correct_phish_count ops X probs p_y data),
          correctly_not_phish =
            correctly_not_phish t + int (correct_legit_count ops X probs p_y data),
          predicted_phish = predicted_phish t + int (predicted_count ops X probs p_y data),
          actual_phish = actual_phish t + int (count_y data 1)\<rparr>"
  using assms
proof (induction data arbitrary: t)
  case Nil
  then show ?case
    by (simp add: correct_phish_count_def correct_legit_count_def predicted_count_def count_y_def)
next
  case (Cons site data)
  from Cons.prems obtain b r where b: "prediction ops site X probs p_y = Inr b"
    and r: "map_of site ''Result'' = Some r" and rest: "scored ops X probs p_y data"
    by (cases "prediction ops site X probs p_y") (auto simp: scored_def)
  show ?case
    using b r
    by (simp add: test_step_eq [OF b r] Cons.IH [OF rest] correct_phish_count_def
        correct_legit_count_def predicted_count_def count_y_def)
qed

text \<open>
  Claim C9, as stated, fails: the table trained on one legitimate row with the value 0
  and one phishing row with the value 1 scores a legitimate test row with the value 0 as
  legitimate (the scores are \<open>log(1/2) + log(1/3)\<close> against \<open>log(1/2) + log(2/3)\<close>), so
  there is no predicted-positive record; \<^const>\<open>test\<close> prints the accuracy and then
  raises the division fault at the precision, and the recall is never printed.
\<close>

theorem test_division_counterexample:
  "test exact_ops [''a''] [[(''a'', 0), (''Result'', - 1)], [(''a'', 1), (''Result'', 1)]]
        [[(''a'', 0), (''Result'', - 1)]] = ([Accuracy 1], Inl ZeroDivisionError)"
  by (simp add: test_def train_unfold prediction_def prediction_step_def table_entry_def
      test_step_def tally0_def)

text \<open>
  Claim C9, amended. \<^const>\<open>test\<close> has no guard on its divisions and reports no metric as
  undefined. When training succeeds and every record of the test partition gets a verdict
  and has its label, then, whatever the float arithmetic: on an empty partition the
  division fault is raised at the accuracy and nothing is reported; on a non-empty
  partition with no predicted-positive record the accuracy is reported and the fault is
  raised at the precision; with a predicted-positive record but no actual-positive record
  the accuracy and the precision are reported and the fault is raised at the recall;
  otherwise all three metrics are reported.
\<close>

theorem test_division:
  assumes "train X train_data = Inr (probs, p_y)" and "scored ops X probs p_y test_data"
  shows "(test_data = [] \<longrightarrow>
            test ops X train_data test_data = ([], Inl ZeroDivisionError)) \<and>
         (test_data \<noteq> [] \<and> predicted_count ops X probs p_y test_data = 0 \<longrightarrow>
            test ops X train_data test_data =
              ([Accuracy ((real (correct_phish_count ops X probs p_y test_data) +
                           real (correct_legit_count ops X probs p_y test_data)) /
                          real (length test_data))],
               Inl ZeroDivisionError)) \<and>
         (test_data \<noteq> [] \<and> predicted_count ops X probs p_y test_data \<noteq> 0 \<and>
          count_y test_data 1 = 0 \<longrightarrow>
            test ops X train_data test_data =
              ([Accuracy ((real (correct_phish_count ops X probs p_y test_data) +
                           real (correct_legit_count ops X probs p_y test_data)) /
                          real (length test_data)),
                Precision (real (correct_phish_count ops X probs p_y test_data) /
                           real (predicted_count ops X probs p_y test_data))],
               Inl ZeroDivisionError)) \<and>
         (test_data \<noteq> [] \<and> predicted_count ops X probs p_y test_data \<noteq> 0 \<and>
          count_y test_data 1 \<noteq> 0 \<longrightarrow>
            test ops X train_data test_data =
              ([Accuracy ((real (correct_phish_count ops X probs p_y test_data) +
                           real (correct_legit_count ops X probs p_y test_data)) /
                          real (length test_data)),
                Precision (real (correct_phish_count ops X probs p_y test_data) /
                           real (predicted_count ops X probs p_y test_data)),
                Recall (real (correct_phish_count ops X probs p_y test_data) /
                        real (count_y test_data 1))],
               Inr ()))"
  by (simp add: test_def assms(1) test_loop [OF assms(2)] tally0_def py_div_def)

text \<open>The run of the counterexample, and the empty partition.\<close>

theorem test_division_witness:
  "train [''a''] [[(''a'', 0), (''Result'', - 1)], [(''a'', 1), (''Result'', 1)]] =
     Inr (PDict [(''a'', PDict [(''0'', PTuple [PFloat (2 / 3), PFloat (1 / 3)]),
                               (''1'', PTuple [PFloat (1 / 3), PFloat (2 / 3)])])], 1 / 2) \<and>
   scored exact_ops [''a'']
     (PDict [(''a'', PDict [(''0'', PTuple [PFloat (2 / 3), PFloat (1 / 3)]),
                           (''1'', PTuple [PFloat (1 / 3), PFloat (2 / 3)])])]) (1 / 2)
     [[(''a'', 0), (''Result'', - 1)]] \<and>
   predicted_count exact_ops [''a'']
     (PDict [(''a'', PDict [(''0'', PTuple [PFloat (2 / 3), PFloat (1 / 3)]),
                           (''1'', PTuple [PFloat (1 / 3), PFloat (2 / 3)])])]) (1 / 2)
     [[(''a'', 0), (''Result'', - 1)]] = 0 \<and>
   test exact_ops [''a''] [[(''a'', 0), (''Result'', - 1)], [(''a'', 1), (''Result'', 1)]]
        [[(''a'', 0), (''Result'', - 1)]] =
     ([Accuracy ((real (correct_phish_count exact_ops [''a'']
                    (PDict [(''a'', PDict [(''0'', PTuple [PFloat (2 / 3), PFloat (1 / 3)]),
                                          (''1'', PTuple [PFloat (1 / 3), PFloat (2 / 3)])])])
                    (1 / 2) [[(''a'', 0), (''Result'', - 1)]]) +
                  real (correct_legit_count exact_ops [''a'']
                    (PDict [(''a'', PDict [(''0'', PTuple [PFloat (2 / 3), PFloat (1 / 3)]),
                                          (''1'', PTuple [PFloat (1 / 3), PFloat (2 / 3)])])])
                    (1 / 2) [[(''a'', 0), (''Result'', - 1)]])) /
                 real (length [[(''a'', 0 :: int), (''Result'', - 1)]]))],
      Inl ZeroDivisionError) \<and>
   test exact_ops [''a''] [[(''a'', 0), (''Result'', - 1)], [(''a'', 1), (''Result'', 1)]] [] =
     ([], Inl ZeroDivisionError)"
proof -
  let ?tr = "[[(''a'', 0), (''Result'', - 1)], [(''a'', 1), (''Result'', 1)]] :: site list"
  let ?te = "[[(''a'', 0), (''Result'', - 1)]] :: site list"
  let ?P = "PDict [(''a'', PDict [(''0'', PTuple [PFloat (2 / 3), PFloat (1 / 3)]),
                                 (''1'', PTuple [PFloat (1 / 3), PFloat (2 / 3)])])]"
  have p: "prediction exact_ops [(''a'', 0), (''Result'', - 1)] [''a''] ?P (1 / 2) = Inr False"
    by (simp add: prediction_def prediction_step_def table_entry_def getfield_def)
  have 1: "train [''a''] ?tr = Inr (?P, 1 / 2)" by (simp add: train_unfold)
  have 2: "scored exact_ops [''a''] ?P (1 / 2) ?te" by (simp add: scored_def p)
  have 3: "?te \<noteq> []" by simp
  have 4: "predicted_count exact_ops [''a''] ?P (1 / 2) ?te = 0"
    by (simp add: predicted_count_def p)
  have 5: "scored exact_ops [''a''] ?P (1 / 2) []" by (simp add: scored_def)
  from test_division [OF 1 5]
  have 6: "test exact_ops [''a''] ?tr [] = ([], Inl ZeroDivisionError)" by blast
  from test_division [OF 1 2] 3 4 1 2 6 show ?thesis by blast
qed

section \<open>Ranking the features\<close>

text \<open>
  Claim C10 fails on the code, by the start of the slice: \<^verbatim>\<open>len(sorted_ratios) -
  n_features\<close> is negative when \<open>n_features\<close> is above the number of candidate features,
  and a negative start counts from the end. With the two candidates \<open>a\<close> (ratio 3/4) and
  \<open>b\<close> (ratio 4/3), asking for the top 3 returns \<open>b\<close> alone, while asking for the top 2,
  and for the top 4, returns both.
\<close>

theorem ranker_negative_slice_start:
  "calc_feature_impact exact_ops [''id'', ''a'', ''b'', ''Result'']
     [[(''id'', 1), (''a'', - 1), (''b'', 1), (''Result'', 1)]] 0 3 = Inr [''b''] \<and>
   calc_feature_impact exact_ops [''id'', ''a'', ''b'', ''Result'']
     [[(''id'', 1), (''a'', - 1), (''b'', 1), (''Result'', 1)]] 0 2 = Inr [''a'', ''b''] \<and>
   calc_feature_impact exact_ops [''id'', ''a'', ''b'', ''Result'']
     [[(''id'', 1), (''a'', - 1), (''b'', 1), (''Result'', 1)]] 0 4 = Inr [''a'', ''b'']"
  by (simp add: calc_feature_impact_def feature_ratio_def impact_step_def getcol_def
      getfield_def py_truediv_def py_fdiv_def py_slice_from_def name_at_def Let_def upt_rec)

text \<open>
  Within the range, \<open>n_features\<close> from 0 to the number of candidate columns, the names
  returned are those of the last \<open>n_features\<close> entries of the ranking, provided the
  arithmetic gives no quotient of two positive ints as zero (so that no ratio divides by
  zero).
\<close>

lemma impact_loop:
  assumes "rect n data" and "i < n"
  shows "for_loop (impact_step th i) data (a, b, c) =
     Inr (a + int (count_geq data th i), b + int (phish_geq data th i),
          c + int (phish_lt data th i))"
  using assms(1)
proof (induction data arbitrary: a b c)
  case Nil
  then show ?case by (simp add: count_geq_def phish_geq_def phish_lt_def)
next
  case (Cons site data)
  from Cons.prems assms(2) obtain r where i: "i < length site"
    and r: "map_of site ''Result'' = Some r" and rest: "rect n data"
    by (auto simp: rect_def)
  have step: "impact_step th i site (a, b, c) =
     Inr (a + (if th \<le> snd (site ! i) then 1 else 0),
          b + (if th \<le> snd (site ! i) \<and> r = 1 then 1 else 0),
          c + (if snd (site ! i) < th \<and> r = 1 then 1 else 0))"
    using i r by (simp add: impact_step_def getcol_def getfield_def)
  show ?case
    using r by (simp add: step Cons.IH [OF rest] count_geq_def phish_geq_def phish_lt_def)
qed

lemma count_geq_lt: "count_geq data th i + count_lt data th i = length data"
  unfolding count_geq_def count_lt_def
  by (induction data) auto

lemma feature_ratio_eq:
  assumes "rect n data" and "i < n"
    and nz: "\<And>a b. 0 < a \<Longrightarrow> 0 < b \<Longrightarrow> fl_idiv ops a b \<noteq> 0"
  shows "feature_ratio ops data th i = Inr (impact ops data th i)"
proof -
  have len: "int (length data) - int (count_geq data th i) = int (count_lt data th i)"
    using count_geq_lt [of data th i] by simp
  have z: "fl_idiv ops (int (phish_lt data th i) + 1) (int (count_lt data th i) + 2) \<noteq> 0"
    by (rule nz) simp_all
  have a: "int (count_geq data th i) + 2 \<noteq> 0" "int (count_lt data th i) + 2 \<noteq> 0" by simp_all
  show ?thesis
    using z a
    unfolding feature_ratio_def impact_loop [OF assms(1,2), of th 0 0 0]
    by (simp add: py_truediv_def py_fdiv_def len impact_def add.commute)
qed

lemma ratios_loop:
  assumes "rect n data" and "\<And>i. i \<in> set cols \<Longrightarrow> i < n"
    and nz: "\<And>a b. 0 < a \<Longrightarrow> 0 < b \<Longrightarrow> fl_idiv ops a b \<noteq> 0"
  shows "for_loop (\<lambda>i ratios. bnd (feature_ratio ops data th i) (\<lambda>r. Inr (ratios @ [(i, r)])))
           cols acc = Inr (acc @ map (\<lambda>i. (i, impact ops data th i)) cols)"
  using assms(2)
proof (induction cols arbitrary: acc)
  case Nil
  then show ?case by simp
next
  case (Cons i cols)
  have "i < n" using Cons.prems by simp
  then show ?case
    using Cons.IH Cons.prems by (simp add: feature_ratio_eq [OF assms(1) _ nz])
qed

lemma names_loop:
  assumes "\<And>p. p \<in> set result \<Longrightarrow> fst p < length names"
  shows "for_loop (\<lambda>i out. bnd (name_at names (fst i)) (\<lambda>nm. Inr (out @ [nm]))) result acc =
           Inr (acc @ map (\<lambda>p. names ! fst p) result)"
  using assms
proof (induction result arbitrary: acc)
  case Nil
  then show ?case by simp
next
  case (Cons p result)
  have "fst p < length names" using Cons.prems by simp
  then show ?case
    using Cons.IH Cons.prems by (simp add: name_at_def)
qed

lemma py_slice_last:
  assumes "0 \<le> k" and "k \<le> int (length xs)"
  shows "py_slice_from (int (length xs) - k) xs = drop (length xs - nat k) xs"
proof -
  have "nat (int (length xs) - k) = length xs - nat k"
    using assms by linarith
  with assms show ?thesis
    by (simp add: py_slice_from_def Let_def min_def)
qed

lemma length_candidates: "length (candidates ops names data th) = length names - 2"
  by (simp add: candidates_def)

lemma candidates_cols:
  "p \<in> set (candidates ops names data th) \<Longrightarrow> 1 \<le> fst p \<and> fst p < length names - 1"
  by (auto simp: candidates_def)

lemma ranker_in_range:
  assumes "data_raw \<noteq> []" and "rect (length names) data_raw"
    and "0 \<le> k" and "k \<le> int (length names) - 2"
    and nz: "\<And>a b. 0 < a \<Longrightarrow> 0 < b \<Longrightarrow> fl_idiv ops a b \<noteq> 0"
  shows "calc_feature_impact ops names data_raw th k =
           Inr (map (\<lambda>p. names ! fst p)
                  (drop (length (ranking ops names data_raw th) - nat k)
                     (ranking ops names data_raw th)))"
    and "length (drop (length (ranking ops names data_raw th) - nat k)
                   (ranking ops names data_raw th)) = nat k"
    and "sorted (map snd (ranking ops names data_raw th))"
    and "mset (ranking ops names data_raw th) =
           mset (map (\<lambda>i. (i, impact ops data_raw th i)) [1 ..< length names - 1])"
proof -
  let ?n = "length names"
  let ?r = "ranking ops names data_raw th"
  have l0: "length (hd data_raw) = ?n"
    using assms(1,2) by (cases data_raw) (auto simp: rect_def)
  have cols: "\<And>i. i \<in> set [1 ..< ?n - 1] \<Longrightarrow> i < ?n" by auto
  have loop: "for_loop (\<lambda>i ratios. bnd (feature_ratio ops data_raw th i)
                          (\<lambda>r. Inr (ratios @ [(i, r)])))
           [1 ..< ?n - 1] [] = Inr (candidates ops names data_raw th)"
    unfolding candidates_def
    using ratios_loop [OF assms(2) cols nz, of "[1 ..< ?n - 1]" th "[]"] by simp
  have len: "length ?r = ?n - 2"
    by (simp add: ranking_def length_candidates)
  have k: "k \<le> int (length ?r)"
    using assms(3,4) len by linarith
  have sl: "py_slice_from (int (length ?r) - k) ?r = drop (length ?r - nat k) ?r"
    by (rule py_slice_last [OF assms(3) k])
  have nm: "for_loop (\<lambda>i out. bnd (name_at names (fst i)) (\<lambda>nm. Inr (out @ [nm])))
              (drop (length ?r - nat k) ?r) [] =
            Inr (map (\<lambda>p. names ! fst p) (drop (length ?r - nat k) ?r))"
  proof -
    have "\<And>p. p \<in> set (drop (length ?r - nat k) ?r) \<Longrightarrow> fst p < ?n"
    proof -
      fix p assume "p \<in> set (drop (length ?r - nat k) ?r)"
      then have "p \<in> set ?r" by (rule in_set_dropD)
      then have "p \<in> set (candidates ops names data_raw th)" by (simp add: ranking_def)
      from candidates_cols [OF this] show "fst p < ?n" by linarith
    qed
    from names_loop [OF this, of "drop (length ?r - nat k) ?r" "[]"] show ?thesis by simp
  qed
  have "calc_feature_impact ops names data_raw th k =
          for_loop (\<lambda>i out. bnd (name_at names (fst i)) (\<lambda>nm. Inr (out @ [nm])))
            (py_slice_from (int (length ?r) - k) ?r) []"
    using loop assms(1)
    by (simp add: calc_feature_impact_def list.case_eq_if l0 Let_def ranking_def)
  then show "calc_feature_impact ops names data_raw th k =
           Inr (map (\<lambda>p. names ! fst p) (drop (length ?r - nat k) ?r))"
    unfolding sl nm .
  show "length (drop (length ?r - nat k) ?r) = nat k"
    using k assms(3) by simp
  show "sorted (map snd ?r)" by (simp add: ranking_def)
  show "mset ?r = mset (map (\<lambda>i. (i, impact ops data_raw th i)) [1 ..< ?n - 1])"
    by (simp add: ranking_def candidates_def)
qed

end
